theory Spec2Isabelle
  imports Main
begin

section \<open>The marshal decoder of gorails (marshal/marshal.go)\<close>

text \<open>
  A shallow embedding of \<^verbatim>\<open>marshal.go\<close>. A Go \<^verbatim>\<open>byte\<close> is a \<^typ>\<open>char\<close>
  (an 8-bit value, read as a number with \<^const>\<open>of_char\<close>), a Go \<^verbatim>\<open>string\<close> is a
  \<^typ>\<open>string\<close>, Go's \<^verbatim>\<open>int\<close> and \<^verbatim>\<open>int64\<close> are \<^typ>\<open>int\<close>: the decoder
  assembles at most five payload bytes into an \<^verbatim>\<open>int64\<close> and every offset it
  computes is checked against a slice bound before it is used again, so no 64-bit
  operation wraps.
\<close>

subsection \<open>Outcomes of a call\<close>

text \<open>
  A Go call returns, or panics (index or slice bound out of range, negative
  \<^verbatim>\<open>make\<close> length). \<open>Exhausted\<close> is the model's third outcome: the recursion
  allowance of a recursive method ran out before the call returned.
\<close>

datatype 'a outcome = Ret 'a | Panic | Exhausted

definition obind :: "'a outcome \<Rightarrow> ('a \<Rightarrow> 'b outcome) \<Rightarrow> 'b outcome" where
  "obind r f = (case r of Ret x \<Rightarrow> f x | Panic \<Rightarrow> Panic | Exhausted \<Rightarrow> Exhausted)"

subsection \<open>Byte slices\<close>

text \<open>
  A \<^verbatim>\<open>[]byte\<close> is a window on a backing array: \<open>bytes\<close> are the \<^verbatim>\<open>len\<close>
  elements of the slice, \<open>spare\<close> the elements between its length and its capacity.
  Nothing in the package writes to a byte, so a slice is modelled by the values it can
  reach. Indexing is checked against the length, re-slicing with an upper bound against
  the capacity, as the Go runtime does.
\<close>

record slice =
  bytes :: string
  spare :: string

definition mk_slice :: "string \<Rightarrow> slice" where
  "mk_slice xs = \<lparr>bytes = xs, spare = []\<rparr>"

definition slen :: "slice \<Rightarrow> int" where
  "slen s = int (length (bytes s))"

definition scap :: "slice \<Rightarrow> int" where
  "scap s = int (length (bytes s) + length (spare s))"

text \<open>\<^verbatim>\<open>s[i]\<close>\<close>
definition index :: "slice \<Rightarrow> int \<Rightarrow> char outcome" where
  "index s i = (if 0 \<le> i \<and> i < slen s then Ret (bytes s ! nat i) else Panic)"

text \<open>\<^verbatim>\<open>s[lo:]\<close>\<close>
definition slice_from :: "slice \<Rightarrow> int \<Rightarrow> slice outcome" where
  "slice_from s lo =
     (if 0 \<le> lo \<and> lo \<le> slen s
      then Ret \<lparr>bytes = drop (nat lo) (bytes s), spare = spare s\<rparr>
      else Panic)"

text \<open>\<^verbatim>\<open>s[lo:hi]\<close>\<close>
definition slice_range :: "slice \<Rightarrow> int \<Rightarrow> int \<Rightarrow> slice outcome" where
  "slice_range s lo hi =
     (if 0 \<le> lo \<and> lo \<le> hi \<and> hi \<le> scap s
      then Ret \<lparr>bytes = take (nat (hi - lo)) (drop (nat lo) (bytes s @ spare s)),
                spare = drop (nat hi) (bytes s @ spare s)\<rparr>
      else Panic)"

subsection \<open>Primitive readers\<close>

text \<open>\<^verbatim>\<open>func parseBool(data []byte) (bool, int)\<close>\<close>
definition parseBool :: "slice \<Rightarrow> (bool \<times> int) outcome" where
  "parseBool data = obind (index data 0) (\<lambda>b. Ret (b = CHR ''T'', 1))"

text \<open>
  The two loops of \<^verbatim>\<open>parseInt\<close>, \<^verbatim>\<open>for ; i > 0; i-- { value = value<<8 + ... }\<close>,
  by recursion on the counter \<open>i\<close>.
\<close>

fun parseInt_pos :: "slice \<Rightarrow> nat \<Rightarrow> int \<Rightarrow> int outcome" where
  "parseInt_pos data 0 v = Ret v"
| "parseInt_pos data (Suc i) v =
     obind (index data (int (Suc i)))
       (\<lambda>x. parseInt_pos data i (push_bit 8 v + int (of_char x)))"

fun parseInt_neg :: "slice \<Rightarrow> nat \<Rightarrow> int \<Rightarrow> int outcome" where
  "parseInt_neg data 0 v = Ret v"
| "parseInt_neg data (Suc i) v =
     obind (index data (int (Suc i)))
       (\<lambda>x. parseInt_neg data i (push_bit 8 v + (0xff - int (of_char x))))"

text \<open>
  \<^verbatim>\<open>func parseInt(data []byte) (int64, int)\<close>. The counters and the returned lengths
  are computed in \<^verbatim>\<open>byte\<close> arithmetic, hence the \<open>mod 256\<close>. In Go \<^verbatim>\<open>^\<close> and
  \<^verbatim>\<open>+\<close> have the same precedence, so \<^verbatim>\<open>0xff ^ value + 1\<close> is \<^verbatim>\<open>(0xff ^ value) + 1\<close>.
\<close>

definition parseInt :: "slice \<Rightarrow> (int \<times> int) outcome" where
  "parseInt data =
     obind (index data 0) (\<lambda>c.
       let b = (of_char c :: nat) in
       if b > 0x05 \<and> b < 0xfb then
         (let v = int b in
          if v > 0x7f then Ret (- (xor 0xff v + 1) + 5, 1)
          else Ret (v - 5, 1))
       else if b \<le> 0x05 then
         obind (parseInt_pos data b 0) (\<lambda>v. Ret (v, int ((b + 1) mod 256)))
       else
         obind (parseInt_neg data ((0xff - b + 1) mod 256) 0)
           (\<lambda>v. Ret (- (v + 1), int ((0xff - b + 2) mod 256))))"

text \<open>\<^verbatim>\<open>func parseString(data []byte) (string, int)\<close>\<close>
definition parseString :: "slice \<Rightarrow> (string \<times> int) outcome" where
  "parseString data =
     obind (parseInt data) (\<lambda>(len, headerSize).
       let size = len + headerSize in
       obind (slice_range data headerSize size) (\<lambda>s. Ret (bytes s, size)))"

text \<open>\<^verbatim>\<open>func parseStringWithEncoding(data []byte) (string, int, []string)\<close>\<close>
definition parseStringWithEncoding :: "slice \<Rightarrow> (string \<times> int \<times> string list) outcome" where
  "parseStringWithEncoding data =
     obind (parseString data) (\<lambda>(v, size).
       if slen data > size + 1 then
         obind (index data (size + 1)) (\<lambda>t.
           if t = CHR '':'' \<or> t = CHR '';'' then
             obind
               (if t = CHR '';''
                then obind (slice_from data (size + 2)) (\<lambda>d.
                       obind (parseInt d) (\<lambda>(_, encSize). Ret (size + (encSize + 1), [])))
                else obind (slice_from data (size + 2)) (\<lambda>d.
                       obind (parseString d) (\<lambda>(encSymbol, encSize).
                         Ret (size + (encSize + 1), [encSymbol]))))
               (\<lambda>(size1, cache).
                  obind (index data (size1 + 1)) (\<lambda>q.
                    obind
                      (if q = CHR 0x22
                       then obind (slice_from data (size1 + 2)) (\<lambda>d.
                              obind (parseString d) (\<lambda>(_, encNameSize).
                                Ret (size1 + (encNameSize + 1))))
                       else obind (slice_from data (size1 + 1)) (\<lambda>d.
                              obind (parseBool d) (\<lambda>(_, encNameSize).
                                Ret (size1 + encNameSize))))
                      (\<lambda>size2. Ret (v, size2 + 1, cache))))
           else Ret (v, size, []))
       else Ret (v, size, []))"

subsection \<open>Nodes, the two shared tables and the heap\<close>

datatype marshalledObjectType =
  TYPE_UNKNOWN | TYPE_NIL | TYPE_BOOL | TYPE_INTEGER | TYPE_FLOAT
| TYPE_STRING | TYPE_ARRAY | TYPE_MAP

text \<open>
  The package's two error values, and the error of \<^verbatim>\<open>strconv.ParseFloat\<close>.
\<close>

datatype error = TypeMismatch | IncompleteData | ParseFloatError

text \<open>
  \<^verbatim>\<open>type MarshalledObject struct\<close>. The fields \<^verbatim>\<open>symbolCache\<close> and
  \<^verbatim>\<open>objectCache\<close> are pointers that every node made from one root copies from its
  parent, so all nodes of a root share one symbol table and one object table: they are
  fields of the state. A \<^verbatim>\<open>*MarshalledObject\<close> is an address of the heap; the object
  table holds addresses and compares them, as the source compares pointers.
\<close>

record MarshalledObject =
  MajorVersion :: char
  MinorVersion :: char
  data :: slice
  size_field :: int

record state =
  heap :: "nat \<Rightarrow> MarshalledObject"
  nxt :: nat
  symbolCache :: "string list"
  objectCache :: "nat list"

type_synonym 'a M = "state \<Rightarrow> 'a outcome \<times> state"

definition ret :: "'a \<Rightarrow> 'a M" where
  "ret x = (\<lambda>st. (Ret x, st))"

definition panic :: "'a M" where
  "panic = (\<lambda>st. (Panic, st))"

definition exhausted :: "'a M" where
  "exhausted = (\<lambda>st. (Exhausted, st))"

text \<open>Sequencing: a panic stops the call and leaves the state as it is at that point.\<close>

definition mbind :: "'a M \<Rightarrow> ('a \<Rightarrow> 'b M) \<Rightarrow> 'b M" where
  "mbind m f = (\<lambda>st. case m st of
       (Ret x, st') \<Rightarrow> f x st'
     | (Panic, st') \<Rightarrow> (Panic, st')
     | (Exhausted, st') \<Rightarrow> (Exhausted, st'))"

text \<open>A computation that reads the state and does not change it.\<close>

definition gets :: "(state \<Rightarrow> 'a outcome) \<Rightarrow> 'a M" where
  "gets f = (\<lambda>st. (f st, st))"

definition alloc :: "MarshalledObject \<Rightarrow> nat M" where
  "alloc ob = (\<lambda>st. (Ret (nxt st), st\<lparr>heap := (heap st)(nxt st := ob), nxt := Suc (nxt st)\<rparr>))"

definition newMarshalledObjectWithSize :: "char \<Rightarrow> char \<Rightarrow> slice \<Rightarrow> int \<Rightarrow> nat M" where
  "newMarshalledObjectWithSize majorVersion minorVersion d sz =
     alloc \<lparr>MajorVersion = majorVersion, MinorVersion = minorVersion, data = d, size_field = sz\<rparr>"

definition newMarshalledObject :: "char \<Rightarrow> char \<Rightarrow> slice \<Rightarrow> nat M" where
  "newMarshalledObject majorVersion minorVersion d =
     newMarshalledObjectWithSize majorVersion minorVersion d (slen d)"

text \<open>
  \<^verbatim>\<open>func CreateMarshalledObject(serializedData []byte) *MarshalledObject\<close>: two fresh
  tables, and the root node as the first object of a fresh heap.
\<close>

definition empty_state :: state where
  "empty_state = \<lparr>heap = (\<lambda>_. \<lparr>MajorVersion = CHR 0x00, MinorVersion = CHR 0x00,
                                data = mk_slice [], size_field = 0\<rparr>),
                   nxt = 0, symbolCache = [], objectCache = []\<rparr>"

definition CreateMarshalledObject :: "slice \<Rightarrow> (nat \<times> state) outcome" where
  "CreateMarshalledObject serializedData =
     obind (index serializedData 0) (\<lambda>major.
     obind (index serializedData 1) (\<lambda>minor.
     obind (slice_from serializedData 2) (\<lambda>d.
       case newMarshalledObject major minor d empty_state of
         (r, st) \<Rightarrow> obind r (\<lambda>root. Ret (root, st)))))"

text \<open>\<^verbatim>\<open>func (obj *MarshalledObject) resolveObjectLink() *MarshalledObject\<close>;
  \<open>None\<close> is \<^verbatim>\<open>nil\<close>. The guard \<^verbatim>\<open>int(idx) < len(cache)\<close> lets a negative
  index through to \<^verbatim>\<open>cache[idx]\<close>, which panics.\<close>

definition resolveObjectLink :: "state \<Rightarrow> nat \<Rightarrow> nat option outcome" where
  "resolveObjectLink st obj =
     (let d = data (heap st obj) in
      if slen d > 0 \<and> index d 0 = Ret CHR ''@'' then
        obind (slice_from d 1) (\<lambda>d1.
        obind (parseInt d1) (\<lambda>(idx, _).
          if idx < int (length (objectCache st))
          then (if 0 \<le> idx then Ret (Some (objectCache st ! nat idx)) else Panic)
          else Ret None))
      else Ret None)"

text \<open>The \<^verbatim>\<open>switch obj.data[0]\<close> of \<^verbatim>\<open>GetType\<close>, on data that is not empty.\<close>

definition tag_type :: "slice \<Rightarrow> marshalledObjectType outcome" where
  "tag_type d =
     obind (index d 0) (\<lambda>c.
       if c = CHR ''0'' then Ret TYPE_NIL
       else if c = CHR ''T'' \<or> c = CHR ''F'' then Ret TYPE_BOOL
       else if c = CHR ''i'' then Ret TYPE_INTEGER
       else if c = CHR ''f'' then Ret TYPE_FLOAT
       else if c = CHR '':'' \<or> c = CHR '';'' then Ret TYPE_STRING
       else if c = CHR ''I'' then
         (if slen d > 1 \<and> index d 1 = Ret (CHR 0x22) then Ret TYPE_STRING
          else Ret TYPE_UNKNOWN)
       else if c = CHR ''['' then Ret TYPE_ARRAY
       else if c = CHR ''{'' then Ret TYPE_MAP
       else Ret TYPE_UNKNOWN)"

text \<open>
  \<^verbatim>\<open>func (obj *MarshalledObject) GetType() marshalledObjectType\<close>. The method calls
  itself on the node a \<^verbatim>\<open>@\<close> link resolves to; the first argument bounds the number
  of such nested calls. It only reads the state.
\<close>

fun GetType :: "nat \<Rightarrow> state \<Rightarrow> nat \<Rightarrow> marshalledObjectType outcome" where
  "GetType n st obj =
     (if slen (data (heap st obj)) = 0 then Ret TYPE_UNKNOWN
      else obind (resolveObjectLink st obj) (\<lambda>ref.
        case ref of
          Some r \<Rightarrow> (case n of 0 \<Rightarrow> Exhausted | Suc m \<Rightarrow> GetType m st r)
        | None \<Rightarrow> tag_type (data (heap st obj))))"

declare GetType.simps [simp del]

text \<open>\<^verbatim>\<open>func assertType(obj *MarshalledObject, expectedType marshalledObjectType) (err error)\<close>\<close>

definition assertType :: "nat \<Rightarrow> nat \<Rightarrow> marshalledObjectType \<Rightarrow> error option M" where
  "assertType n obj expectedType =
     gets (\<lambda>st. obind (GetType n st obj)
       (\<lambda>t. Ret (if t \<noteq> expectedType then Some TypeMismatch else None)))"

text \<open>
  \<^verbatim>\<open>func (obj *MarshalledObject) cacheSymbols(symbols ...string)\<close>. The set
  \<^verbatim>\<open>known\<close> is built from the table before the loop and is not extended in it.
\<close>

fun cacheSymbols_loop :: "string list \<Rightarrow> string list \<Rightarrow> string list \<Rightarrow> string list" where
  "cacheSymbols_loop known [] cache = cache"
| "cacheSymbols_loop known (symbol # symbols) cache =
     cacheSymbols_loop known symbols
       (if symbol \<in> set known then cache else cache @ [symbol])"

definition cacheSymbols :: "string list \<Rightarrow> unit M" where
  "cacheSymbols symbols =
     (\<lambda>st. if length symbols = 0 then (Ret (), st)
           else (Ret (), st\<lparr>symbolCache :=
                   cacheSymbols_loop (symbolCache st) symbols (symbolCache st)\<rparr>))"

text \<open>
  \<^verbatim>\<open>func (obj *MarshalledObject) cacheObject(object *MarshalledObject)\<close>. The first
  test looks at \<^verbatim>\<open>object\<close>, the second at the type of the receiver \<^verbatim>\<open>obj\<close>.
\<close>

definition cacheObject :: "nat \<Rightarrow> nat \<Rightarrow> nat \<Rightarrow> unit M" where
  "cacheObject n obj object =
     (\<lambda>st. let od = data (heap st object) in
       if slen od > 0 \<and> (index od 0 = Ret CHR ''@'' \<or> index od 0 = Ret CHR '':''
                          \<or> index od 0 = Ret CHR '';'')
       then (Ret (), st)
       else (case GetType n st obj of
           Ret t \<Rightarrow>
             if \<not> (t = TYPE_STRING \<or> t = TYPE_ARRAY \<or> t = TYPE_MAP) then (Ret (), st)
             else if object \<in> set (objectCache st) then (Ret (), st)
             else (Ret (), st\<lparr>objectCache := objectCache st @ [object]\<rparr>)
         | Panic \<Rightarrow> (Panic, st)
         | Exhausted \<Rightarrow> (Exhausted, st)))"

subsection \<open>The scalar accessors\<close>

text \<open>\<^verbatim>\<open>func (obj *MarshalledObject) GetAsBool() (value bool, err error)\<close>\<close>

definition GetAsBool :: "nat \<Rightarrow> nat \<Rightarrow> (error + bool) M" where
  "GetAsBool n obj =
     mbind (assertType n obj TYPE_BOOL) (\<lambda>err.
       case err of
         Some e \<Rightarrow> ret (Inl e)
       | None \<Rightarrow> mbind (gets (\<lambda>st. parseBool (data (heap st obj))))
                   (\<lambda>(v, _). ret (Inr v)))"

text \<open>\<^verbatim>\<open>func (obj *MarshalledObject) GetAsInteger() (value int64, err error)\<close>\<close>

definition GetAsInteger :: "nat \<Rightarrow> nat \<Rightarrow> (error + int) M" where
  "GetAsInteger n obj =
     mbind (assertType n obj TYPE_INTEGER) (\<lambda>err.
       case err of
         Some e \<Rightarrow> ret (Inl e)
       | None \<Rightarrow> mbind (gets (\<lambda>st. obind (slice_from (data (heap st obj)) 1) parseInt))
                   (\<lambda>(v, _). ret (Inr v)))"

text \<open>
  The two functions of \<^verbatim>\<open>strconv\<close> on \<^verbatim>\<open>float64\<close> are parameters: \<open>ParseFloat\<close>
  gives the value and whether the error is not \<^verbatim>\<open>nil\<close>, \<open>fzero\<close> is the zero value.
\<close>

record 'f strconv =
  ParseFloat :: "string \<Rightarrow> 'f \<times> bool"
  FormatFloat :: "'f \<Rightarrow> string"
  fzero :: 'f

text \<open>\<^verbatim>\<open>func (obj *MarshalledObject) GetAsFloat() (value float64, err error)\<close>: the
  pair of the value and the error, since \<^verbatim>\<open>ParseFloat\<close> returns both.\<close>

definition GetAsFloat :: "'f strconv \<Rightarrow> nat \<Rightarrow> nat \<Rightarrow> ('f \<times> error option) M" where
  "GetAsFloat sc n obj =
     mbind (assertType n obj TYPE_FLOAT) (\<lambda>err.
       case err of
         Some e \<Rightarrow> ret (fzero sc, Some e)
       | None \<Rightarrow> mbind (gets (\<lambda>st. obind (slice_from (data (heap st obj)) 1) parseString))
                   (\<lambda>(str, _). ret (case ParseFloat sc str of
                       (v, failed) \<Rightarrow> (v, if failed then Some ParseFloatError else None))))"

text \<open>\<^verbatim>\<open>func (obj *MarshalledObject) GetAsString() (value string, err error)\<close>\<close>

fun GetAsString :: "nat \<Rightarrow> nat \<Rightarrow> (error + string) M" where
  "GetAsString n obj =
     mbind (gets (\<lambda>st. resolveObjectLink st obj)) (\<lambda>ref.
       case ref of
         Some r \<Rightarrow> (case n of 0 \<Rightarrow> exhausted | Suc m \<Rightarrow> GetAsString m r)
       | None \<Rightarrow>
           mbind (assertType n obj TYPE_STRING) (\<lambda>err.
             case err of
               Some e \<Rightarrow> ret (Inl e)
             | None \<Rightarrow>
                 mbind (cacheObject n obj obj) (\<lambda>_.
                 mbind (gets (\<lambda>st. index (data (heap st obj)) 0)) (\<lambda>c.
                   if c = CHR '':'' then
                     mbind (gets (\<lambda>st. obind (slice_from (data (heap st obj)) 1) parseString))
                       (\<lambda>(v, _). mbind (cacheSymbols [v]) (\<lambda>_. ret (Inr v)))
                   else if c = CHR '';'' then
                     mbind (gets (\<lambda>st. obind (slice_from (data (heap st obj)) 1) parseInt))
                       (\<lambda>(refIndex, _).
                          mbind (gets (\<lambda>st.
                              if 0 \<le> refIndex \<and> refIndex < int (length (symbolCache st))
                              then Ret (symbolCache st ! nat refIndex) else Panic))
                            (\<lambda>v. ret (Inr v)))
                   else
                     mbind (gets (\<lambda>st. obind (slice_from (data (heap st obj)) 2)
                                          parseStringWithEncoding))
                       (\<lambda>(v, _, cache). mbind (cacheSymbols cache) (\<lambda>_. ret (Inr v)))))))"

declare GetAsString.simps [simp del]

text \<open>\<^verbatim>\<open>strconv.FormatInt(v, 10)\<close>\<close>

fun digits10 :: "nat \<Rightarrow> string" where
  "digits10 n =
     (if n < 10 then [char_of (48 + n)]
      else digits10 (n div 10) @ [char_of (48 + n mod 10)])"

declare digits10.simps [simp del]

definition FormatInt :: "int \<Rightarrow> string" where
  "FormatInt v = (if v < 0 then CHR ''-'' # digits10 (nat (- v)) else digits10 (nat v))"

text \<open>\<^verbatim>\<open>func (obj *MarshalledObject) ToString() (str string)\<close>: the accessors' errors
  are dropped and the value they return with an error is the zero value.\<close>

definition ToString :: "'f strconv \<Rightarrow> nat \<Rightarrow> nat \<Rightarrow> string M" where
  "ToString sc n obj =
     mbind (gets (\<lambda>st. GetType n st obj)) (\<lambda>t.
       case t of
         TYPE_NIL \<Rightarrow> ret ''<nil>''
       | TYPE_BOOL \<Rightarrow>
           mbind (GetAsBool n obj)
             (\<lambda>r. ret (case r of Inr v \<Rightarrow> (if v then ''true'' else ''false'') | Inl _ \<Rightarrow> ''false''))
       | TYPE_INTEGER \<Rightarrow>
           mbind (GetAsInteger n obj)
             (\<lambda>r. ret (FormatInt (case r of Inr v \<Rightarrow> v | Inl _ \<Rightarrow> 0)))
       | TYPE_STRING \<Rightarrow>
           mbind (GetAsString n obj) (\<lambda>r. ret (case r of Inr v \<Rightarrow> v | Inl _ \<Rightarrow> []))
       | TYPE_FLOAT \<Rightarrow>
           mbind (GetAsFloat sc n obj) (\<lambda>(v, _). ret (FormatFloat sc v))
       | _ \<Rightarrow> ret [])"

subsection \<open>Containers and sizes\<close>

definition set_size :: "nat \<Rightarrow> int \<Rightarrow> unit M" where
  "set_size obj v =
     (\<lambda>st. (Ret (), st\<lparr>heap := (heap st)(obj := (heap st obj)\<lparr>size_field := v\<rparr>)\<rparr>))"

text \<open>
  The \<^verbatim>\<open>TYPE_STRING, TYPE_FLOAT\<close> case of \<^verbatim>\<open>getSize\<close>: a float's text is passed to
  \<^verbatim>\<open>cacheSymbols\<close> as a symbol's is.
\<close>

definition string_size :: "slice \<Rightarrow> int M" where
  "string_size d =
     mbind (gets (\<lambda>_. index d 0)) (\<lambda>c.
       if c = CHR '';'' then
         mbind (gets (\<lambda>_. obind (slice_from d 1) parseInt))
           (\<lambda>(_, dataSize). ret (1 + dataSize))
       else if c = CHR ''I'' then
         mbind (gets (\<lambda>_. obind (slice_from d 2) parseStringWithEncoding))
           (\<lambda>(_, dataSize, cache). mbind (cacheSymbols cache) (\<lambda>_. ret (2 + dataSize)))
       else
         mbind (gets (\<lambda>_. obind (slice_from d 1) parseString))
           (\<lambda>(symbol, dataSize). mbind (cacheSymbols [symbol]) (\<lambda>_. ret (1 + dataSize))))"

text \<open>
  \<^verbatim>\<open>getSize\<close>, \<^verbatim>\<open>GetAsArray\<close> and \<^verbatim>\<open>GetAsMap\<close> call each other; the two
  \<^verbatim>\<open>for\<close> loops are \<open>GetAsArray_loop\<close> and \<open>GetAsMap_loop\<close>, by recursion on the
  number of iterations left. The second argument bounds the depth of the nested calls
  (a link followed, a container inside a container). \<^verbatim>\<open>make\<close> panics on a negative
  slice length and accepts a negative map hint; running out of memory is not modelled.
  A \<^verbatim>\<open>map[string]*MarshalledObject\<close> is a map from strings to addresses.
\<close>

function (sequential) getSize :: "'f strconv \<Rightarrow> nat \<Rightarrow> nat \<Rightarrow> int M"
  and GetAsArray :: "'f strconv \<Rightarrow> nat \<Rightarrow> nat \<Rightarrow> (error + nat list) M"
  and GetAsArray_loop ::
    "'f strconv \<Rightarrow> nat \<Rightarrow> nat \<Rightarrow> nat \<Rightarrow> int \<Rightarrow> nat list \<Rightarrow> (nat list \<times> int) M"
  and GetAsMap :: "'f strconv \<Rightarrow> nat \<Rightarrow> nat \<Rightarrow> (error + (string \<rightharpoonup> nat)) M"
  and GetAsMap_loop ::
    "'f strconv \<Rightarrow> nat \<Rightarrow> nat \<Rightarrow> nat \<Rightarrow> int \<Rightarrow> (string \<rightharpoonup> nat) \<Rightarrow> ((string \<rightharpoonup> nat) \<times> int) M"
where
  "getSize sc n obj =
     mbind (gets (\<lambda>st. Ret (data (heap st obj)))) (\<lambda>d.
       if slen d > 0 \<and> index d 0 = Ret CHR ''@'' then
         mbind (gets (\<lambda>_. obind (slice_from d 1) parseInt))
           (\<lambda>(_, dataSize). ret (1 + dataSize))
       else
         mbind (gets (\<lambda>st. GetType n st obj)) (\<lambda>t.
           case t of
             TYPE_NIL \<Rightarrow> ret (0 + 1)
           | TYPE_BOOL \<Rightarrow> ret (0 + 1)
           | TYPE_INTEGER \<Rightarrow>
               mbind (gets (\<lambda>_. obind (slice_from d 1) parseInt))
                 (\<lambda>(_, dataSize). ret (1 + dataSize))
           | TYPE_STRING \<Rightarrow> string_size d
           | TYPE_FLOAT \<Rightarrow> string_size d
           | TYPE_ARRAY \<Rightarrow>
               mbind (gets (\<lambda>st. Ret (size_field (heap st obj)))) (\<lambda>sz.
                 if sz = 0 then
                   (case n of
                      0 \<Rightarrow> exhausted
                    | Suc m \<Rightarrow> mbind (GetAsArray sc m obj)
                        (\<lambda>_. gets (\<lambda>st. Ret (size_field (heap st obj)))))
                 else ret sz)
           | TYPE_MAP \<Rightarrow>
               mbind (gets (\<lambda>st. Ret (size_field (heap st obj)))) (\<lambda>sz.
                 if sz = 0 then
                   (case n of
                      0 \<Rightarrow> exhausted
                    | Suc m \<Rightarrow> mbind (GetAsMap sc m obj)
                        (\<lambda>_. gets (\<lambda>st. Ret (size_field (heap st obj)))))
                 else ret sz)
           | TYPE_UNKNOWN \<Rightarrow> ret (0 + 0)))"
| "GetAsArray sc n obj =
     mbind (gets (\<lambda>st. resolveObjectLink st obj)) (\<lambda>ref.
       case ref of
         Some r \<Rightarrow> (case n of 0 \<Rightarrow> exhausted | Suc m \<Rightarrow> GetAsArray sc m r)
       | None \<Rightarrow>
           mbind (assertType n obj TYPE_ARRAY) (\<lambda>err.
             case err of
               Some e \<Rightarrow> ret (Inl e)
             | None \<Rightarrow>
                 mbind (cacheObject n obj obj) (\<lambda>_.
                 mbind (gets (\<lambda>st. obind (slice_from (data (heap st obj)) 1) parseInt))
                   (\<lambda>(arraySize, offset).
                      if arraySize < 0 then panic
                      else
                        mbind (GetAsArray_loop sc n obj (nat arraySize) (offset + 1) [])
                          (\<lambda>(v, offset'). mbind (set_size obj offset') (\<lambda>_. ret (Inr v)))))))"
| "GetAsArray_loop sc n obj 0 offset v = ret (v, offset)"
| "GetAsArray_loop sc n obj (Suc k) offset v =
     mbind (gets (\<lambda>st. Ret (heap st obj))) (\<lambda>ob.
     mbind (gets (\<lambda>_. slice_from (data ob) offset)) (\<lambda>rest.
     mbind (newMarshalledObjectWithSize (MajorVersion ob) (MinorVersion ob) rest 0) (\<lambda>tmp.
     mbind (getSize sc n tmp) (\<lambda>valueSize.
     mbind (gets (\<lambda>_. slice_range (data ob) offset (offset + valueSize))) (\<lambda>d.
     mbind (newMarshalledObject (MajorVersion ob) (MinorVersion ob) d) (\<lambda>child.
     mbind (cacheObject n obj child) (\<lambda>_.
       GetAsArray_loop sc n obj k (offset + valueSize) (v @ [child]))))))))"
| "GetAsMap sc n obj =
     mbind (gets (\<lambda>st. resolveObjectLink st obj)) (\<lambda>ref.
       case ref of
         Some r \<Rightarrow> (case n of 0 \<Rightarrow> exhausted | Suc m \<Rightarrow> GetAsMap sc m r)
       | None \<Rightarrow>
           mbind (assertType n obj TYPE_MAP) (\<lambda>err.
             case err of
               Some e \<Rightarrow> ret (Inl e)
             | None \<Rightarrow>
                 mbind (cacheObject n obj obj) (\<lambda>_.
                 mbind (gets (\<lambda>st. obind (slice_from (data (heap st obj)) 1) parseInt))
                   (\<lambda>(mapSize, offset).
                      mbind (GetAsMap_loop sc n obj (nat mapSize) (offset + 1) Map.empty)
                        (\<lambda>(v, offset'). mbind (set_size obj offset') (\<lambda>_. ret (Inr v)))))))"
| "GetAsMap_loop sc n obj 0 offset v = ret (v, offset)"
| "GetAsMap_loop sc n obj (Suc k) offset v =
     mbind (gets (\<lambda>st. Ret (heap st obj))) (\<lambda>ob.
     mbind (gets (\<lambda>_. slice_from (data ob) offset)) (\<lambda>rest.
     mbind (newMarshalledObject (MajorVersion ob) (MinorVersion ob) rest) (\<lambda>key.
     mbind (cacheObject n obj key) (\<lambda>_.
     mbind (getSize sc n key) (\<lambda>keySize.
     mbind (gets (\<lambda>_. slice_from (data ob) (offset + keySize))) (\<lambda>rest'.
     mbind (newMarshalledObjectWithSize (MajorVersion ob) (MinorVersion ob) rest' 0) (\<lambda>tmp.
     mbind (getSize sc n tmp) (\<lambda>valueSize.
     mbind (gets (\<lambda>_. slice_range (data ob) (offset + keySize)
                          (offset + keySize + valueSize))) (\<lambda>d.
     mbind (newMarshalledObject (MajorVersion ob) (MinorVersion ob) d) (\<lambda>val.
     mbind (cacheObject n obj val) (\<lambda>_.
     mbind (ToString sc n key) (\<lambda>ks.
       GetAsMap_loop sc n obj k (offset + keySize + valueSize) (v(ks \<mapsto> val))))))))))))))"


  by pat_completeness auto
termination
  by (relation "measures [
        (\<lambda>x. case x of
            Inl (Inl (sc, n, obj)) \<Rightarrow> n
          | Inl (Inr (sc, n, obj)) \<Rightarrow> n
          | Inr (Inl (sc, n, obj, k, off, v)) \<Rightarrow> n
          | Inr (Inr (Inl (sc, n, obj))) \<Rightarrow> n
          | Inr (Inr (Inr (sc, n, obj, k, off, v))) \<Rightarrow> n),
        (\<lambda>x. case x of
            Inl (Inl (sc, n, obj)) \<Rightarrow> 0
          | Inl (Inr (sc, n, obj)) \<Rightarrow> 2
          | Inr (Inl (sc, n, obj, k, off, v)) \<Rightarrow> 1
          | Inr (Inr (Inl (sc, n, obj))) \<Rightarrow> 2
          | Inr (Inr (Inr (sc, n, obj, k, off, v))) \<Rightarrow> 1),
        (\<lambda>x. case x of
            Inl (Inl (sc, n, obj)) \<Rightarrow> 0
          | Inl (Inr (sc, n, obj)) \<Rightarrow> 0
          | Inr (Inl (sc, n, obj, k, off, v)) \<Rightarrow> k
          | Inr (Inr (Inl (sc, n, obj))) \<Rightarrow> 0
          | Inr (Inr (Inr (sc, n, obj, k, off, v))) \<Rightarrow> k)]") auto

declare getSize.simps [simp del] GetAsArray.simps [simp del] GetAsMap.simps [simp del]

subsection \<open>Operations on the nodes of a root\<close>

text \<open>
  The public methods and \<^verbatim>\<open>getSize\<close>, as commands on a node. \<open>perform\<close> gives the
  state a call leaves behind, whether it returned or panicked; \<open>perform_all\<close> runs a list
  of calls, each with its own bound on the nesting depth.
\<close>

datatype opn =
  Op_GetType nat | Op_GetAsBool nat | Op_GetAsInteger nat | Op_GetAsFloat nat
| Op_GetAsString nat | Op_GetAsArray nat | Op_GetAsMap nat | Op_ToString nat
| Op_getSize nat

definition perform :: "'f strconv \<Rightarrow> nat \<Rightarrow> opn \<Rightarrow> state \<Rightarrow> state" where
  "perform sc n c st =
     (case c of
        Op_GetType obj \<Rightarrow> snd (gets (\<lambda>s. GetType n s obj) st)
      | Op_GetAsBool obj \<Rightarrow> snd (GetAsBool n obj st)
      | Op_GetAsInteger obj \<Rightarrow> snd (GetAsInteger n obj st)
      | Op_GetAsFloat obj \<Rightarrow> snd (GetAsFloat sc n obj st)
      | Op_GetAsString obj \<Rightarrow> snd (GetAsString n obj st)
      | Op_GetAsArray obj \<Rightarrow> snd (GetAsArray sc n obj st)
      | Op_GetAsMap obj \<Rightarrow> snd (GetAsMap sc n obj st)
      | Op_ToString obj \<Rightarrow> snd (ToString sc n obj st)
      | Op_getSize obj \<Rightarrow> snd (getSize sc n obj st))"

fun perform_all :: "'f strconv \<Rightarrow> (nat \<times> opn) list \<Rightarrow> state \<Rightarrow> state" where
  "perform_all sc [] st = st"
| "perform_all sc ((n, c) # cs) st = perform_all sc cs (perform sc n c st)"

text \<open>A \<open>strconv\<close> for inputs without floats: its \<^verbatim>\<open>float64\<close> has one value.\<close>

definition no_floats :: "unit strconv" where
  "no_floats = \<lparr>ParseFloat = (\<lambda>_. ((), False)), FormatFloat = (\<lambda>_. []), fzero = ()\<rparr>"

text \<open>The state \<^verbatim>\<open>CreateMarshalledObject\<close> makes from version bytes 4, 8 and a payload.\<close>

definition root_state :: "string \<Rightarrow> state" where
  "root_state payload =
     snd (newMarshalledObject (CHR 0x04) (CHR 0x08) (mk_slice payload) empty_state)"

subsection \<open>Notions used to state the properties\<close>

text \<open>
  The value assembled in little-endian order from a sequence of bytes, each byte
  contributing \<open>f\<close> of it.
\<close>

fun le_acc :: "(char \<Rightarrow> int) \<Rightarrow> string \<Rightarrow> int" where
  "le_acc f [] = 0"
| "le_acc f (x # xs) = f x + 256 * le_acc f xs"

text \<open>
  \<open>appended old new\<close>: the table \<open>new\<close> is \<open>old\<close> followed by distinct strings that are
  not in \<open>old\<close>.
\<close>

definition appended :: "string list \<Rightarrow> string list \<Rightarrow> bool" where
  "appended old new =
     (take (length old) new = old \<and> distinct (drop (length old) new)
      \<and> set (drop (length old) new) \<inter> set old = {})"

definition sym_ext :: "state \<Rightarrow> state \<Rightarrow> bool" where
  "sym_ext st st' = appended (symbolCache st) (symbolCache st')"

text \<open>
  \<open>obj_ext st st'\<close>: every node allocated in \<open>st\<close> has the same bytes in \<open>st'\<close>, and
  the object table of \<open>st'\<close> starts with the object table of \<open>st\<close>.
\<close>

definition obj_ext :: "state \<Rightarrow> state \<Rightarrow> bool" where
  "obj_ext st st' =
     (nxt st \<le> nxt st' \<and> (\<forall>a < nxt st. data (heap st' a) = data (heap st a))
      \<and> take (length (objectCache st)) (objectCache st') = objectCache st)"

text \<open>Every handle of the object table is an allocated node.\<close>

definition handles_allocated :: "state \<Rightarrow> bool" where
  "handles_allocated st = (\<forall>a \<in> set (objectCache st). a < nxt st)"

text \<open>
  The node a command is called on, and \<open>on_allocated sc cs st\<close>: every command of the
  list \<open>cs\<close>, run from \<open>st\<close>, is called on a node that is allocated when it is called
  (the root, or a node an earlier call made).
\<close>

definition operand :: "opn \<Rightarrow> nat" where
  "operand c =
     (case c of
        Op_GetType obj \<Rightarrow> obj | Op_GetAsBool obj \<Rightarrow> obj | Op_GetAsInteger obj \<Rightarrow> obj
      | Op_GetAsFloat obj \<Rightarrow> obj | Op_GetAsString obj \<Rightarrow> obj | Op_GetAsArray obj \<Rightarrow> obj
      | Op_GetAsMap obj \<Rightarrow> obj | Op_ToString obj \<Rightarrow> obj | Op_getSize obj \<Rightarrow> obj)"

fun on_allocated :: "'f strconv \<Rightarrow> (nat \<times> opn) list \<Rightarrow> state \<Rightarrow> bool" where
  "on_allocated sc [] st = True"
| "on_allocated sc ((n, c) # cs) st =
     (operand c < nxt st \<and> on_allocated sc cs (perform sc n c st))"

text \<open>\<open>keeps_handles m st\<close>: after the call \<open>m\<close> from \<open>st\<close> every handle of the object
  table is an allocated node, and no node has been deallocated.\<close>

definition keeps_handles :: "'a M \<Rightarrow> state \<Rightarrow> bool" where
  "keeps_handles m st = (handles_allocated (snd (m st)) \<and> nxt st \<le> nxt (snd (m st)))"

text \<open>
  A relation between the state before and after a call that the primitive state changes
  of the package respect: allocating a node, \<^verbatim>\<open>cacheSymbols\<close> with at most one
  symbol, appending a handle that is not in the object table, and storing a size.
\<close>

definition frame_rel :: "(state \<Rightarrow> state \<Rightarrow> bool) \<Rightarrow> bool" where
  "frame_rel R =
     ((\<forall>st. R st st)
      \<and> (\<forall>s1 s2 s3. R s1 s2 \<longrightarrow> R s2 s3 \<longrightarrow> R s1 s3)
      \<and> (\<forall>st ob. R st (st\<lparr>heap := (heap st)(nxt st := ob), nxt := Suc (nxt st)\<rparr>))
      \<and> (\<forall>st syms. length syms \<le> 1 \<longrightarrow>
            R st (st\<lparr>symbolCache := cacheSymbols_loop (symbolCache st) syms (symbolCache st)\<rparr>))
      \<and> (\<forall>st object. object \<notin> set (objectCache st) \<longrightarrow>
            R st (st\<lparr>objectCache := objectCache st @ [object]\<rparr>))
      \<and> (\<forall>st obj v. R st (st\<lparr>heap := (heap st)(obj := (heap st obj)\<lparr>size_field := v\<rparr>)\<rparr>)))"

text \<open>\<open>keeps R m st\<close>: the state that the call \<open>m\<close> leaves behind when it starts in
  \<open>st\<close> is related to \<open>st\<close>.\<close>

definition keeps :: "(state \<Rightarrow> state \<Rightarrow> bool) \<Rightarrow> 'a M \<Rightarrow> state \<Rightarrow> bool" where
  "keeps R m st = R st (snd (m st))"

text \<open>
  Scenario 6 of the specification: the string "hi" decorated with the \<open>:E true\<close>
  annotation, after the two version bytes.
\<close>

definition decorated_hi :: string where
  "decorated_hi = [CHR 0x04, CHR 0x08, CHR 0x49, CHR 0x22, CHR 0x07, CHR 0x68, CHR 0x69,
                   CHR 0x06, CHR 0x3A, CHR 0x06, CHR 0x45, CHR 0x54]"

section \<open>Properties\<close>

subsection \<open>The varint decoder\<close>

lemma le_acc_snoc: "le_acc f (xs @ [x]) = le_acc f xs + 256 ^ length xs * f x"
  by (induction xs) (simp_all add: algebra_simps)

lemma index_0: "bytes buf = c # rest \<Longrightarrow> index buf 0 = Ret c"
  by (simp add: index_def slen_def)

lemma index_Cons_Suc:
  "bytes buf = c # rest \<Longrightarrow> i < length rest \<Longrightarrow> index buf (int (Suc i)) = Ret (rest ! i)"
  by (simp add: index_def slen_def nat_add_distrib)

lemma parseInt_pos_le:
  "bytes buf = c # rest \<Longrightarrow> i \<le> length rest \<Longrightarrow>
   parseInt_pos buf i v = Ret (v * 256 ^ i + le_acc (\<lambda>x. int (of_char x)) (take i rest))"
proof (induction i arbitrary: v)
  case 0
  then show ?case by simp
next
  case (Suc i)
  from Suc.prems have lt: "i < length rest" by simp
  have ix: "index buf (int (Suc i)) = Ret (rest ! i)"
    using Suc.prems(1) lt by (rule index_Cons_Suc)
  have tk: "take (Suc i) rest = take i rest @ [rest ! i]"
    using lt by (simp add: take_Suc_conv_app_nth)
  have step: "parseInt_pos buf (Suc i) v =
      parseInt_pos buf i (push_bit 8 v + int (of_char (rest ! i)))"
    by (simp only: parseInt_pos.simps ix obind_def outcome.case)
  show ?case
    unfolding step
    using Suc.IH [OF Suc.prems(1), of "push_bit 8 v + int (of_char (rest ! i))"] lt
    by (simp add: tk le_acc_snoc push_bit_eq_mult algebra_simps)
qed

lemma parseInt_neg_le:
  "bytes buf = c # rest \<Longrightarrow> i \<le> length rest \<Longrightarrow>
   parseInt_neg buf i v =
     Ret (v * 256 ^ i + le_acc (\<lambda>x. 0xff - int (of_char x)) (take i rest))"
proof (induction i arbitrary: v)
  case 0
  then show ?case by simp
next
  case (Suc i)
  from Suc.prems have lt: "i < length rest" by simp
  have ix: "index buf (int (Suc i)) = Ret (rest ! i)"
    using Suc.prems(1) lt by (rule index_Cons_Suc)
  have tk: "take (Suc i) rest = take i rest @ [rest ! i]"
    using lt by (simp add: take_Suc_conv_app_nth)
  have step: "parseInt_neg buf (Suc i) v =
      parseInt_neg buf i (push_bit 8 v + (0xff - int (of_char (rest ! i))))"
    by (simp only: parseInt_neg.simps ix obind_def outcome.case)
  show ?case
    unfolding step
    using Suc.IH [OF Suc.prems(1), of "push_bit 8 v + (0xff - int (of_char (rest ! i)))"] lt
    by (simp add: tk le_acc_snoc push_bit_eq_mult algebra_simps)
qed

text \<open>
  C2, as the code has it. The inline forms are the first bytes 6 to 0x7F (value
  \<open>b - 5\<close>) and 0x80 to 0xFA (value \<open>-((b XOR 0xFF) + 1) + 5\<close>), each of length 1. The
  guard of \<^verbatim>\<open>parseInt\<close> is \<^verbatim>\<open>data[0] > 0x05 && data[0] < 0xfb\<close>, so the bytes 5 and
  0xFB are not inline forms: they announce five payload bytes.
\<close>

theorem parseInt_inline:
  assumes "bytes buf = c # rest" and "b = (of_char c :: nat)"
  shows "(6 \<le> b \<and> b \<le> 0x7F \<longrightarrow> parseInt buf = Ret (int b - 5, 1)) \<and>
         (0x80 \<le> b \<and> b \<le> 0xFA \<longrightarrow>
            parseInt buf = Ret (- (xor (int b) 0xFF + 1) + 5, 1))"
  using assms by (auto simp add: parseInt_def index_0 obind_def Let_def xor.commute)

theorem parseInt_inline_witness:
  "parseInt (mk_slice [CHR 0x2F]) = Ret (42, 1) \<and> parseInt (mk_slice [CHR 0xFA]) = Ret (- 1, 1)"
proof -
  have a: "bytes (mk_slice [CHR 0x2F]) = CHR 0x2F # []" "bytes (mk_slice [CHR 0xFA]) = CHR 0xFA # []"
    by (simp_all add: mk_slice_def)
  have b: "(47::nat) = of_char (CHR 0x2F)" "(250::nat) = of_char (CHR 0xFA)"
    by simp_all
  show ?thesis
    using parseInt_inline [OF a(1) b(1)] parseInt_inline [OF a(2) b(2)] by simp
qed

text \<open>
  The claim C2 as stated fails at the first byte 5: on the buffer 05 01 00 00 00 00 the
  decoder returns the value 1 and the length 6, not the value \<open>5 - 5\<close> and the length 1.
\<close>

theorem parseInt_byte5_counterexample:
  "of_char (CHR 0x05) = (5::nat) \<and>
   parseInt (mk_slice [CHR 0x05, CHR 0x01, CHR 0x00, CHR 0x00, CHR 0x00, CHR 0x00]) = Ret (1, 6) \<and>
   parseInt (mk_slice [CHR 0x05, CHR 0x01, CHR 0x00, CHR 0x00, CHR 0x00, CHR 0x00])
     \<noteq> Ret (5 - 5, 1)"
  by code_simp

text \<open>
  C3. First byte 0: value 0, length 1. First byte \<open>b\<close> from 1 to 4, followed by at least
  \<open>b\<close> bytes: the value is the next \<open>b\<close> bytes in little-endian order, the length
  \<open>b + 1\<close>. First byte \<open>b\<close> from 0xFC to 0xFF, followed by at least \<open>n = 256 - b\<close> bytes:
  the value is \<open>-(acc + 1)\<close>, where \<open>acc\<close> is assembled in little-endian order from
  \<open>0xFF - x\<close> for each of the next \<open>n\<close> bytes \<open>x\<close>, and the length is \<open>n + 1\<close>.
\<close>

theorem parseInt_multibyte:
  assumes "bytes buf = c # rest" and "b = (of_char c :: nat)"
  shows "(b = 0 \<longrightarrow> parseInt buf = Ret (0, 1)) \<and>
         (1 \<le> b \<and> b \<le> 4 \<and> b \<le> length rest \<longrightarrow>
            parseInt buf = Ret (le_acc (\<lambda>x. int (of_char x)) (take b rest), int b + 1)) \<and>
         (0xFC \<le> b \<and> 256 - b \<le> length rest \<longrightarrow>
            parseInt buf =
              Ret (- (le_acc (\<lambda>x. 0xff - int (of_char x)) (take (256 - b) rest) + 1),
                   int (256 - b) + 1))"
proof (intro conjI impI)
  assume "b = 0"
  then show "parseInt buf = Ret (0, 1)"
    using assms by (simp add: parseInt_def index_0 obind_def)
next
  assume h: "1 \<le> b \<and> b \<le> 4 \<and> b \<le> length rest"
  then have "parseInt_pos buf b 0 = Ret (le_acc (\<lambda>x. int (of_char x)) (take b rest))"
    using parseInt_pos_le [OF assms(1), of b 0] by simp
  then show "parseInt buf = Ret (le_acc (\<lambda>x. int (of_char x)) (take b rest), int b + 1)"
    using assms h by (simp add: parseInt_def index_0 obind_def Let_def)
next
  assume h: "0xFC \<le> b \<and> 256 - b \<le> length rest"
  have lt: "b < 256" using assms(2) nat_of_char_less_256 by simp
  have "0xff - b + 1 = 256 - b" "0xff - b + 2 = 256 - b + 1" "256 - b + 1 < 256"
    using h lt by arith+
  then have e: "(0xff - b + 1) mod 256 = 256 - b"
    and e2: "(0xff - b + 2) mod 256 = 256 - b + 1"
    by simp_all
  have r: "parseInt_neg buf (256 - b) 0 =
          Ret (le_acc (\<lambda>x. 0xff - int (of_char x)) (take (256 - b) rest))"
    using parseInt_neg_le [OF assms(1), of "256 - b" 0] h by simp
  have "parseInt buf =
          obind (parseInt_neg buf ((0xff - b + 1) mod 256) 0)
            (\<lambda>v. Ret (- (v + 1), int ((0xff - b + 2) mod 256)))"
    using assms h lt by (simp add: parseInt_def index_0 obind_def Let_def)
  also have "\<dots> = Ret (- (le_acc (\<lambda>x. 0xff - int (of_char x)) (take (256 - b) rest) + 1),
                   int (256 - b) + 1)"
    unfolding e e2 r by (simp add: obind_def)
  finally show "parseInt buf =
              Ret (- (le_acc (\<lambda>x. 0xff - int (of_char x)) (take (256 - b) rest) + 1),
                   int (256 - b) + 1)" .
qed

theorem parseInt_multibyte_witness:
  "parseInt (mk_slice [CHR 0x00]) = Ret (0, 1) \<and>
   parseInt (mk_slice [CHR 0x02, CHR 0x00, CHR 0x01]) = Ret (256, 3) \<and>
   parseInt (mk_slice [CHR 0xFE, CHR 0x00, CHR 0xFF]) = Ret (- 256, 3)"
proof -
  have a: "bytes (mk_slice [CHR 0x00]) = CHR 0x00 # []"
          "bytes (mk_slice [CHR 0x02, CHR 0x00, CHR 0x01]) = CHR 0x02 # [CHR 0x00, CHR 0x01]"
          "bytes (mk_slice [CHR 0xFE, CHR 0x00, CHR 0xFF]) = CHR 0xFE # [CHR 0x00, CHR 0xFF]"
    by (simp_all add: mk_slice_def)
  have b: "(0::nat) = of_char (CHR 0x00)" "(2::nat) = of_char (CHR 0x02)"
          "(254::nat) = of_char (CHR 0xFE)"
    by simp_all
  show ?thesis
    using parseInt_multibyte [OF a(1) b(1)] parseInt_multibyte [OF a(2) b(2)]
      parseInt_multibyte [OF a(3) b(3)]
    by simp
qed

subsection \<open>Evaluating the decoder on an input\<close>

lemmas slice_simps = index_def slen_def scap_def slice_from_def slice_range_def mk_slice_def
  obind_def

lemmas monad_simps = mbind_def gets_def ret_def panic_def exhausted_def alloc_def
  newMarshalledObject_def newMarshalledObjectWithSize_def set_size_def

lemmas parse_simps = parseStringWithEncoding_def parseString_def parseInt_def parseBool_def
  Let_def

lemmas node_simps = resolveObjectLink_def tag_type_def assertType_def cacheObject_def
  cacheSymbols_def root_state_def empty_state_def

lemma GetAsArray_loop_numeral:
  "GetAsArray_loop sc n obj (numeral k) offset v =
   GetAsArray_loop sc n obj (Suc (pred_numeral k)) offset v"
  by (simp only: numeral_eq_Suc)

lemma Create_root_state:
  "CreateMarshalledObject (mk_slice (CHR 0x04 # CHR 0x08 # payload)) = Ret (0, root_state payload)"
  by (simp add: CreateMarshalledObject_def slice_simps monad_simps root_state_def empty_state_def)

lemma Create_tables:
  "CreateMarshalledObject buf = Ret (root, st0) \<Longrightarrow>
   symbolCache st0 = [] \<and> objectCache st0 = [] \<and> root = 0 \<and> nxt st0 = 1"
  unfolding CreateMarshalledObject_def newMarshalledObject_def newMarshalledObjectWithSize_def
    alloc_def empty_state_def
  by (auto simp: obind_def split: outcome.splits)


subsection \<open>The entry point\<close>

text \<open>
  C9. \<^verbatim>\<open>CreateMarshalledObject\<close> reads \<^verbatim>\<open>serializedData[0]\<close> and
  \<^verbatim>\<open>serializedData[1]\<close> and slices \<^verbatim>\<open>serializedData[2:]\<close> without a test of the
  length: on every input of length 0 or 1 the call panics, it returns no error.
\<close>

theorem CreateMarshalledObject_short_panics:
  "slen serializedData < 2 \<Longrightarrow> CreateMarshalledObject serializedData = Panic"
  by (simp add: CreateMarshalledObject_def index_def obind_def)

theorem CreateMarshalledObject_short_panics_witness:
  "slen (mk_slice [CHR 0x04]) < 2 \<and> CreateMarshalledObject (mk_slice [CHR 0x04]) = Panic \<and>
   slen (mk_slice []) < 2 \<and> CreateMarshalledObject (mk_slice []) = Panic"
proof -
  have a: "slen (mk_slice [CHR 0x04]) < 2" and b: "slen (mk_slice []) < 2"
    by (simp_all add: slen_def mk_slice_def)
  show ?thesis
    using a b CreateMarshalledObject_short_panics [OF a] CreateMarshalledObject_short_panics [OF b]
    by simp
qed

subsection \<open>Concrete inputs\<close>

text \<open>
  C7. On the input 04 08 49 22 07 68 69 06 3A 06 45 54 the root node has kind String,
  \<^verbatim>\<open>GetAsString\<close> returns "hi", and the size \<^verbatim>\<open>getSize\<close> computes is 10, the length of
  the input minus the two version bytes (it is also the size stored in the root node).
\<close>

theorem decorated_hi_string:
  "CreateMarshalledObject (mk_slice decorated_hi) = Ret (0, root_state (drop 2 decorated_hi)) \<and>
   GetType n (root_state (drop 2 decorated_hi)) 0 = Ret TYPE_STRING \<and>
   fst (GetAsString n 0 (root_state (drop 2 decorated_hi))) = Ret (Inr ''hi'') \<and>
   fst (getSize sc n 0 (root_state (drop 2 decorated_hi))) = Ret 10 \<and>
   size_field (heap (root_state (drop 2 decorated_hi)) 0) = 10 \<and>
   int (length decorated_hi) - 2 = 10"
  by (simp add: CreateMarshalledObject_def decorated_hi_def getSize.simps string_size_def
      GetAsString.simps GetType.simps slice_simps monad_simps parse_simps node_simps)

text \<open>
  C1 does not hold of the code. No method of the package tests a length before it reads
  and none returns \<open>IncompleteData\<close>. On the input 04 08 69 (an integer tag with its
  varint cut off) \<^verbatim>\<open>GetAsInteger\<close> panics on \<^verbatim>\<open>data[0]\<close> in \<^verbatim>\<open>parseInt\<close>; on the input
  04 08 3B 00 (a symbol link into the empty symbol table) \<^verbatim>\<open>GetAsString\<close> panics on
  \<^verbatim>\<open>cache[refIndex]\<close>.
\<close>

theorem accessors_panic_on_truncated_input:
  "CreateMarshalledObject (mk_slice [CHR 0x04, CHR 0x08, CHR 0x69]) = Ret (0, root_state [CHR 0x69]) \<and>
   GetType n (root_state [CHR 0x69]) 0 = Ret TYPE_INTEGER \<and>
   fst (GetAsInteger n 0 (root_state [CHR 0x69])) = Panic \<and>
   CreateMarshalledObject (mk_slice [CHR 0x04, CHR 0x08, CHR 0x3B, CHR 0x00])
     = Ret (0, root_state [CHR 0x3B, CHR 0x00]) \<and>
   GetType n (root_state [CHR 0x3B, CHR 0x00]) 0 = Ret TYPE_STRING \<and>
   fst (GetAsString n 0 (root_state [CHR 0x3B, CHR 0x00])) = Panic"
  by (simp add: CreateMarshalledObject_def GetAsInteger_def GetAsString.simps GetType.simps
      slice_simps monad_simps parse_simps node_simps)

text \<open>
  C4 does not hold of the code. \<^verbatim>\<open>cacheObject\<close> tests the type of its receiver, not of the
  node it appends. On the input 04 08 5B 06 69 06, the array \<open>[1]\<close>, \<^verbatim>\<open>GetAsArray\<close>
  returns one child and leaves two handles in the object table: the array, and the child,
  whose kind is Integer.
\<close>

theorem cacheObject_registers_integer_child:
  "CreateMarshalledObject (mk_slice [CHR 0x04, CHR 0x08, CHR 0x5B, CHR 0x06, CHR 0x69, CHR 0x06])
     = Ret (0, root_state [CHR 0x5B, CHR 0x06, CHR 0x69, CHR 0x06]) \<and>
   fst (GetAsArray sc n 0 (root_state [CHR 0x5B, CHR 0x06, CHR 0x69, CHR 0x06])) = Ret (Inr [2]) \<and>
   objectCache (snd (GetAsArray sc n 0 (root_state [CHR 0x5B, CHR 0x06, CHR 0x69, CHR 0x06])))
     = [0, 2] \<and>
   GetType n (snd (GetAsArray sc n 0 (root_state [CHR 0x5B, CHR 0x06, CHR 0x69, CHR 0x06]))) 2
     = Ret TYPE_INTEGER"
  by (simp add: CreateMarshalledObject_def GetAsArray.simps getSize.simps GetType.simps
      slice_simps monad_simps parse_simps node_simps)

subsection \<open>What a call leaves of the state\<close>

lemma frame_refl: "frame_rel R \<Longrightarrow> R st st"
  by (simp add: frame_rel_def)

lemma frame_trans: "frame_rel R \<Longrightarrow> R s1 s2 \<Longrightarrow> R s2 s3 \<Longrightarrow> R s1 s3"
  unfolding frame_rel_def by blast

lemma gets_eq [simp]: "(gets g st = (r, st')) = (g st = r \<and> st' = st)"
  by (auto simp: gets_def)

lemma ret_eq [simp]: "(ret x st = (r, st')) = (r = Ret x \<and> st' = st)"
  by (auto simp: ret_def)

lemma keeps_ret: "frame_rel R \<Longrightarrow> keeps R (ret x) st"
  by (simp add: keeps_def ret_def frame_refl)

lemma keeps_gets: "frame_rel R \<Longrightarrow> keeps R (gets g) st"
  by (simp add: keeps_def gets_def frame_refl)

lemma keeps_panic: "frame_rel R \<Longrightarrow> keeps R panic st"
  by (simp add: keeps_def panic_def frame_refl)

lemma keeps_exhausted: "frame_rel R \<Longrightarrow> keeps R exhausted st"
  by (simp add: keeps_def exhausted_def frame_refl)

lemma keeps_mbind:
  assumes "frame_rel R" and "keeps R m st"
    and "\<And>x st'. m st = (Ret x, st') \<Longrightarrow> keeps R (f x) st'"
  shows "keeps R (mbind m f) st"
proof (cases "m st")
  case (Pair r st')
  with assms(2) have a: "R st st'" by (simp add: keeps_def)
  show ?thesis
  proof (cases r)
    case (Ret x)
    with Pair assms(3) have "R st' (snd (f x st'))" by (simp add: keeps_def)
    with a assms(1) have "R st (snd (f x st'))" by (blast intro: frame_trans)
    with Pair Ret show ?thesis by (simp add: keeps_def mbind_def)
  next
    case Panic
    with Pair a show ?thesis by (simp add: keeps_def mbind_def)
  next
    case Exhausted
    with Pair a show ?thesis by (simp add: keeps_def mbind_def)
  qed
qed

lemma keeps_alloc: "frame_rel R \<Longrightarrow> keeps R (alloc ob) st"
  unfolding frame_rel_def keeps_def alloc_def by simp

lemma keeps_newMarshalledObjectWithSize:
  "frame_rel R \<Longrightarrow> keeps R (newMarshalledObjectWithSize a b d sz) st"
  by (simp add: newMarshalledObjectWithSize_def keeps_alloc)

lemma keeps_newMarshalledObject: "frame_rel R \<Longrightarrow> keeps R (newMarshalledObject a b d) st"
  by (simp add: newMarshalledObject_def keeps_newMarshalledObjectWithSize)

lemma keeps_set_size: "frame_rel R \<Longrightarrow> keeps R (set_size obj v) st"
  unfolding frame_rel_def keeps_def set_size_def by simp

lemma keeps_cacheSymbols: "frame_rel R \<Longrightarrow> length syms \<le> 1 \<Longrightarrow> keeps R (cacheSymbols syms) st"
  unfolding frame_rel_def keeps_def cacheSymbols_def by simp

lemma keeps_cacheObject: "frame_rel R \<Longrightarrow> keeps R (cacheObject n obj object) st"
  unfolding keeps_def cacheObject_def
  by (auto simp: Let_def frame_refl frame_rel_def split: outcome.split)

lemma keeps_assertType: "frame_rel R \<Longrightarrow> keeps R (assertType n obj t) st"
  by (simp add: assertType_def keeps_gets)

lemma obind_Ret: "obind r f = Ret y \<Longrightarrow> \<exists>x. r = Ret x \<and> f x = Ret y"
  by (cases r) (simp_all add: obind_def)

lemma pswe_cache_length:
  "parseStringWithEncoding d = Ret (v, sz, cache) \<Longrightarrow> length cache \<le> 1"
  unfolding parseStringWithEncoding_def
  by (auto dest!: obind_Ret split: if_splits prod.splits)

lemma pswe_cache_length':
  "obind r parseStringWithEncoding = Ret (v, sz, cache) \<Longrightarrow> length cache \<le> 1"
  by (auto dest!: obind_Ret pswe_cache_length)

lemma GetAsBool_state: "snd (GetAsBool n obj st) = st"
  by (simp add: GetAsBool_def mbind_def assertType_def gets_def ret_def
      split: outcome.split option.split prod.split)

lemma GetAsInteger_state: "snd (GetAsInteger n obj st) = st"
  by (simp add: GetAsInteger_def mbind_def assertType_def gets_def ret_def
      split: outcome.split option.split prod.split)

lemma GetAsFloat_state: "snd (GetAsFloat sc n obj st) = st"
  by (simp add: GetAsFloat_def mbind_def assertType_def gets_def ret_def
      split: outcome.split option.split prod.split)

lemma keeps_unchanged: "frame_rel R \<Longrightarrow> snd (m st) = st \<Longrightarrow> keeps R m st"
  by (simp add: keeps_def frame_refl)

lemma keeps_mbind_all:
  "frame_rel R \<Longrightarrow> keeps R m st \<Longrightarrow> (\<And>x st'. keeps R (f x) st') \<Longrightarrow> keeps R (mbind m f) st"
  by (rule keeps_mbind)

lemma keeps_pswe_cache:
  "frame_rel R \<Longrightarrow>
   keeps R (mbind (gets (\<lambda>st. obind (g st) parseStringWithEncoding))
              (\<lambda>(v, sz, cache). mbind (cacheSymbols cache) (\<lambda>_. ret (h v sz)))) st"
  apply (rule keeps_mbind, assumption)
   apply (rule keeps_gets, assumption)
  apply (simp split: prod.split)
  apply (intro allI impI)
  apply (rule keeps_mbind_all, assumption)
   apply (rule keeps_cacheSymbols, assumption)
   apply (blast dest: pswe_cache_length')
  apply (rule keeps_ret, assumption)
  done

lemma keeps_cacheSymbols1: "frame_rel R \<Longrightarrow> keeps R (cacheSymbols [v]) st"
  by (rule keeps_cacheSymbols) simp_all

lemmas keeps_rules = keeps_ret keeps_gets keeps_panic keeps_exhausted keeps_alloc
  keeps_newMarshalledObjectWithSize keeps_newMarshalledObject keeps_set_size
  keeps_cacheObject keeps_assertType keeps_cacheSymbols1

lemmas keeps_splits = if_split prod.split option.split nat.split marshalledObjectType.split

lemma keeps_GetAsString: "frame_rel R \<Longrightarrow> keeps R (GetAsString n obj) st"
proof (induction n arbitrary: obj st)
  case 0
  note fr = 0
  show ?case
    unfolding GetAsString.simps [of 0 obj]
    by (rule keeps_pswe_cache [OF fr] | rule keeps_rules [OF fr] | rule keeps_mbind_all [OF fr]
        | simp only: split: keeps_splits | intro allI impI conjI)+
next
  case (Suc n)
  note fr = Suc.prems
  show ?case
    unfolding GetAsString.simps [of "Suc n" obj]
    by (rule keeps_pswe_cache [OF fr] | rule keeps_rules [OF fr] | rule keeps_mbind_all [OF fr]
        | rule Suc.IH [OF fr]
        | simp only: nat.case split: keeps_splits | intro allI impI conjI)+
qed

lemma keeps_string_size:
  assumes fr: "frame_rel R"
  shows "keeps R (string_size d) st"
  unfolding string_size_def
  by (rule keeps_pswe_cache [OF fr] | rule keeps_rules [OF fr] | rule keeps_mbind_all [OF fr]
      | simp only: split: keeps_splits | intro allI impI conjI)+

lemma keeps_ToString:
  assumes fr: "frame_rel R"
  shows "keeps R (ToString sc n obj) st"
  unfolding ToString_def
  by (rule keeps_rules [OF fr] | rule keeps_mbind_all [OF fr]
      | rule keeps_GetAsString [OF fr]
      | rule keeps_unchanged [OF fr GetAsBool_state]
      | rule keeps_unchanged [OF fr GetAsInteger_state]
      | rule keeps_unchanged [OF fr GetAsFloat_state]
      | simp only: split: keeps_splits | intro allI impI conjI)+

lemma keeps_getSize_step:
  assumes fr: "frame_rel R"
    and arr: "\<And>m ob s. n = Suc m \<Longrightarrow> keeps R (GetAsArray sc m ob) s"
    and mp: "\<And>m ob s. n = Suc m \<Longrightarrow> keeps R (GetAsMap sc m ob) s"
  shows "keeps R (getSize sc n obj) st"
  unfolding getSize.simps [of sc n obj]
  by (rule keeps_rules [OF fr] | rule keeps_mbind_all [OF fr] | rule keeps_string_size [OF fr]
      | (rule arr, (simp; fail)) | (rule mp, (simp; fail))
      | simp only: split: keeps_splits | intro allI impI conjI)+

lemma keeps_GetAsArray_loop:
  assumes fr: "frame_rel R"
    and gs: "\<And>tmp s. keeps R (getSize sc n tmp) s"
  shows "keeps R (GetAsArray_loop sc n obj k offset v) st"
proof (induction k arbitrary: offset v st)
  case 0
  show ?case by (simp add: keeps_ret [OF fr])
next
  case (Suc k)
  show ?case
    unfolding GetAsArray_loop.simps
    by (rule keeps_rules [OF fr] | rule keeps_mbind_all [OF fr] | rule gs | rule Suc.IH)+
qed

lemma keeps_GetAsMap_loop:
  assumes fr: "frame_rel R"
    and gs: "\<And>tmp s. keeps R (getSize sc n tmp) s"
  shows "keeps R (GetAsMap_loop sc n obj k offset v) st"
proof (induction k arbitrary: offset v st)
  case 0
  show ?case by (simp add: keeps_ret [OF fr])
next
  case (Suc k)
  show ?case
    unfolding GetAsMap_loop.simps
    by (rule keeps_rules [OF fr] | rule keeps_mbind_all [OF fr] | rule gs | rule Suc.IH
        | rule keeps_ToString [OF fr])+
qed

lemma keeps_GetAsArray_step:
  assumes fr: "frame_rel R"
    and gs: "\<And>tmp s. keeps R (getSize sc n tmp) s"
    and arr: "\<And>m ob s. n = Suc m \<Longrightarrow> keeps R (GetAsArray sc m ob) s"
  shows "keeps R (GetAsArray sc n obj) st"
  unfolding GetAsArray.simps [of sc n obj]
  by (rule keeps_rules [OF fr] | rule keeps_mbind_all [OF fr]
      | rule keeps_GetAsArray_loop [OF fr gs]
      | (rule arr, (simp; fail))
      | simp only: split: keeps_splits | intro allI impI conjI)+

lemma keeps_GetAsMap_step:
  assumes fr: "frame_rel R"
    and gs: "\<And>tmp s. keeps R (getSize sc n tmp) s"
    and mp: "\<And>m ob s. n = Suc m \<Longrightarrow> keeps R (GetAsMap sc m ob) s"
  shows "keeps R (GetAsMap sc n obj) st"
  unfolding GetAsMap.simps [of sc n obj]
  by (rule keeps_rules [OF fr] | rule keeps_mbind_all [OF fr]
      | rule keeps_GetAsMap_loop [OF fr gs]
      | (rule mp, (simp; fail))
      | simp only: split: keeps_splits | intro allI impI conjI)+

lemma keeps_containers:
  assumes fr: "frame_rel R"
  shows "(\<forall>obj st. keeps R (getSize sc n obj) st)
       \<and> (\<forall>obj st. keeps R (GetAsArray sc n obj) st)
       \<and> (\<forall>obj st. keeps R (GetAsMap sc n obj) st)"
proof (induction n)
  case 0
  have gs: "\<And>tmp s. keeps R (getSize sc 0 tmp) s"
    by (rule keeps_getSize_step [OF fr]) simp_all
  show ?case
    by (intro conjI allI gs keeps_GetAsArray_step [OF fr gs] keeps_GetAsMap_step [OF fr gs])
       simp_all
next
  case (Suc n)
  from Suc.IH have a: "\<And>ob s. keeps R (GetAsArray sc n ob) s"
    and b: "\<And>ob s. keeps R (GetAsMap sc n ob) s"
    by blast+
  have gs: "\<And>tmp s. keeps R (getSize sc (Suc n) tmp) s"
    by (rule keeps_getSize_step [OF fr]) (use a b in auto)
  show ?case
    by (intro conjI allI gs keeps_GetAsArray_step [OF fr gs] keeps_GetAsMap_step [OF fr gs])
       (use a b in auto)
qed

lemma keeps_perform:
  assumes fr: "frame_rel R"
  shows "R st (perform sc n c st)"
proof -
  note k = keeps_containers [OF fr, of sc n]
  show ?thesis
  proof (cases c)
    case (Op_GetType obj)
    then show ?thesis by (simp add: perform_def gets_def frame_refl [OF fr])
  next
    case (Op_GetAsBool obj)
    then show ?thesis by (simp add: perform_def GetAsBool_state frame_refl [OF fr])
  next
    case (Op_GetAsInteger obj)
    then show ?thesis by (simp add: perform_def GetAsInteger_state frame_refl [OF fr])
  next
    case (Op_GetAsFloat obj)
    then show ?thesis by (simp add: perform_def GetAsFloat_state frame_refl [OF fr])
  next
    case (Op_GetAsString obj)
    then show ?thesis
      using keeps_GetAsString [OF fr, of n obj st] by (simp add: perform_def keeps_def)
  next
    case (Op_GetAsArray obj)
    then show ?thesis using k by (simp add: perform_def keeps_def)
  next
    case (Op_GetAsMap obj)
    then show ?thesis using k by (simp add: perform_def keeps_def)
  next
    case (Op_ToString obj)
    then show ?thesis
      using keeps_ToString [OF fr, of sc n obj st] by (simp add: perform_def keeps_def)
  next
    case (Op_getSize obj)
    then show ?thesis using k by (simp add: perform_def keeps_def)
  qed
qed

lemma keeps_perform_all:
  assumes fr: "frame_rel R"
  shows "R st (perform_all sc cs st)"
proof (induction cs arbitrary: st)
  case Nil
  show ?case by (simp add: frame_refl [OF fr])
next
  case (Cons a cs)
  obtain n c where a: "a = (n, c)" by (cases a)
  have "R st (perform sc n c st)" by (rule keeps_perform [OF fr])
  moreover have "R (perform sc n c st) (perform_all sc cs (perform sc n c st))" by (rule Cons.IH)
  ultimately show ?case unfolding a by (simp add: frame_trans [OF fr])
qed

subsection \<open>The symbol table\<close>

lemma appended_iff:
  "appended old new \<longleftrightarrow> (\<exists>ys. new = old @ ys \<and> distinct ys \<and> set ys \<inter> set old = {})"
proof
  assume a: "appended old new"
  then have "new = old @ drop (length old) new"
    by (metis append_take_drop_id appended_def)
  with a show "\<exists>ys. new = old @ ys \<and> distinct ys \<and> set ys \<inter> set old = {}"
    unfolding appended_def by blast
next
  assume "\<exists>ys. new = old @ ys \<and> distinct ys \<and> set ys \<inter> set old = {}"
  then show "appended old new" by (auto simp: appended_def)
qed

lemma appended_refl: "appended xs xs"
  by (simp add: appended_def)

lemma appended_trans: "appended a b \<Longrightarrow> appended b c \<Longrightarrow> appended a c"
  unfolding appended_iff by auto

lemma appended_distinct: "appended old new \<Longrightarrow> distinct old \<Longrightarrow> distinct new"
  unfolding appended_iff by auto

lemma cacheSymbols_loop_one:
  "length syms \<le> 1 \<Longrightarrow> appended cache (cacheSymbols_loop cache syms cache)"
  by (cases syms) (auto simp: appended_def)

lemma frame_rel_sym_ext: "frame_rel sym_ext"
  unfolding frame_rel_def sym_ext_def
  by (auto simp: appended_refl cacheSymbols_loop_one intro: appended_trans)

text \<open>
  C8. In every state reached from a decoded root by any sequence of calls, the symbol
  table has no duplicates, and any further call leaves a table that is the old one
  followed by distinct strings that were not in it: nothing is removed, replaced or
  reordered.
\<close>

theorem symbol_table_append_only:
  assumes "CreateMarshalledObject buf = Ret (root, st0)"
  shows "distinct (symbolCache (perform_all sc cs st0)) \<and>
         appended (symbolCache (perform_all sc cs st0))
                  (symbolCache (perform sc n c (perform_all sc cs st0)))"
proof
  have "sym_ext st0 (perform_all sc cs st0)"
    by (rule keeps_perform_all [OF frame_rel_sym_ext])
  then have "appended [] (symbolCache (perform_all sc cs st0))"
    using Create_tables [OF assms] by (simp add: sym_ext_def)
  then show "distinct (symbolCache (perform_all sc cs st0))"
    by (rule appended_distinct) simp
  have "sym_ext (perform_all sc cs st0) (perform sc n c (perform_all sc cs st0))"
    by (rule keeps_perform [OF frame_rel_sym_ext])
  then show "appended (symbolCache (perform_all sc cs st0))
                  (symbolCache (perform sc n c (perform_all sc cs st0)))"
    by (simp add: sym_ext_def)
qed


theorem symbol_table_append_only_witness:
  "CreateMarshalledObject (mk_slice (CHR 0x04 # CHR 0x08 #
       [CHR 0x5B, CHR 0x07, CHR 0x3A, CHR 0x06, CHR 0x61, CHR 0x3B, CHR 0x00]))
     = Ret (0, root_state [CHR 0x5B, CHR 0x07, CHR 0x3A, CHR 0x06, CHR 0x61, CHR 0x3B, CHR 0x00]) \<and>
   distinct (symbolCache (perform_all no_floats [(0, Op_GetAsArray 0)]
     (root_state [CHR 0x5B, CHR 0x07, CHR 0x3A, CHR 0x06, CHR 0x61, CHR 0x3B, CHR 0x00]))) \<and>
   appended
     (symbolCache (perform_all no_floats [(0, Op_GetAsArray 0)]
       (root_state [CHR 0x5B, CHR 0x07, CHR 0x3A, CHR 0x06, CHR 0x61, CHR 0x3B, CHR 0x00])))
     (symbolCache (perform no_floats 0 (Op_GetAsString 2)
       (perform_all no_floats [(0, Op_GetAsArray 0)]
         (root_state [CHR 0x5B, CHR 0x07, CHR 0x3A, CHR 0x06, CHR 0x61, CHR 0x3B, CHR 0x00])))) \<and>
   symbolCache (perform_all no_floats [(0, Op_GetAsArray 0)]
     (root_state [CHR 0x5B, CHR 0x07, CHR 0x3A, CHR 0x06, CHR 0x61, CHR 0x3B, CHR 0x00])) = [''a'']"
proof -
  have c: "CreateMarshalledObject (mk_slice (CHR 0x04 # CHR 0x08 #
       [CHR 0x5B, CHR 0x07, CHR 0x3A, CHR 0x06, CHR 0x61, CHR 0x3B, CHR 0x00]))
     = Ret (0, root_state [CHR 0x5B, CHR 0x07, CHR 0x3A, CHR 0x06, CHR 0x61, CHR 0x3B, CHR 0x00])"
    by (rule Create_root_state)
  have v: "symbolCache (perform_all no_floats [(0, Op_GetAsArray 0)]
     (root_state [CHR 0x5B, CHR 0x07, CHR 0x3A, CHR 0x06, CHR 0x61, CHR 0x3B, CHR 0x00])) = [''a'']"
    by (simp add: perform_def GetAsArray_loop_numeral GetAsArray.simps getSize.simps
        string_size_def GetType.simps slice_simps monad_simps parse_simps node_simps)
  from symbol_table_append_only [OF c, of no_floats "[(0, Op_GetAsArray 0)]" 0 "Op_GetAsString 2"]
    c v
  show ?thesis by blast
qed

subsection \<open>The kind of a node\<close>

lemma obj_ext_refl: "obj_ext st st"
  by (simp add: obj_ext_def)

lemma obj_ext_trans: "obj_ext s1 s2 \<Longrightarrow> obj_ext s2 s3 \<Longrightarrow> obj_ext s1 s3"
  unfolding obj_ext_def
  apply (intro conjI)
    apply simp
   apply simp
  apply (metis append_eq_conv_conj append_take_drop_id append.assoc)
  done

lemma frame_rel_obj_ext: "frame_rel obj_ext"
  unfolding frame_rel_def
  apply (intro conjI allI impI)
       apply (rule obj_ext_refl)
      apply (erule (1) obj_ext_trans)
     apply (simp_all add: obj_ext_def)
  done

lemma obj_ext_length:
  "obj_ext st st' \<Longrightarrow> length (objectCache st) \<le> length (objectCache st')"
  unfolding obj_ext_def by (metis length_take min.cobounded2 min.commute)

lemma obj_ext_nth:
  "obj_ext st st' \<Longrightarrow> i < length (objectCache st) \<Longrightarrow> objectCache st' ! i = objectCache st ! i"
  unfolding obj_ext_def by (metis nth_take)

lemma obj_ext_data: "obj_ext st st' \<Longrightarrow> a < nxt st \<Longrightarrow> data (heap st' a) = data (heap st a)"
  unfolding obj_ext_def by blast

lemma resolve_Some_ext:
  assumes "obj_ext st st'" and "obj < nxt st" and "resolveObjectLink st obj = Ret (Some r)"
  shows "resolveObjectLink st' obj = Ret (Some r) \<and> r \<in> set (objectCache st)"
proof -
  have d: "data (heap st' obj) = data (heap st obj)"
    using assms(1,2) by (rule obj_ext_data)
  from assms(3) obtain idx k where
      p: "obind (slice_from (data (heap st obj)) 1) parseInt = Ret (idx, k)"
      and at: "slen (data (heap st obj)) > 0 \<and> index (data (heap st obj)) 0 = Ret CHR ''@''"
      and i: "0 \<le> idx" "idx < int (length (objectCache st))" and r: "r = objectCache st ! nat idx"
    unfolding resolveObjectLink_def Let_def
    by (auto simp: obind_def split: if_splits outcome.splits prod.splits)
  from i have lt: "nat idx < length (objectCache st)" by simp
  with obj_ext_length [OF assms(1)] have lt': "idx < int (length (objectCache st'))" by simp
  have "objectCache st' ! nat idx = r" using obj_ext_nth [OF assms(1) lt] r by simp
  moreover have "r \<in> set (objectCache st)" using lt r by simp
  ultimately show ?thesis
    using p at i lt' unfolding resolveObjectLink_def Let_def d
    by (auto simp: obind_def split: outcome.splits prod.splits)
qed

lemma resolve_not_link:
  "\<not> (slen (data (heap st obj)) > 0 \<and> index (data (heap st obj)) 0 = Ret CHR ''@'')
   \<Longrightarrow> resolveObjectLink st obj = Ret None"
  by (auto simp add: resolveObjectLink_def Let_def)

lemma tag_type_link: "index d 0 = Ret CHR ''@'' \<Longrightarrow> tag_type d = Ret TYPE_UNKNOWN"
  by (simp add: tag_type_def obind_def)

lemma GetType_obj_ext:
  assumes ext: "obj_ext st st'" and ha: "handles_allocated st"
  shows "obj < nxt st \<Longrightarrow> GetType n st obj = Ret k \<Longrightarrow>
         k \<noteq> TYPE_UNKNOWN \<or> index (data (heap st obj)) 0 \<noteq> Ret CHR ''@'' \<Longrightarrow>
         GetType n st' obj = Ret k"
proof (induction n arbitrary: obj)
  case 0
  have d: "data (heap st' obj) = data (heap st obj)"
    using ext "0.prems"(1) by (rule obj_ext_data)
  show ?case
  proof (cases "slen (data (heap st obj)) > 0 \<and> index (data (heap st obj)) 0 = Ret CHR ''@''")
    case True
    with "0.prems"(2,3) show ?thesis
      unfolding GetType.simps [of 0 st obj]
      by (auto simp: obind_def tag_type_link split: outcome.splits option.splits if_splits)
  next
    case False
    then have res: "resolveObjectLink st obj = Ret None" "resolveObjectLink st' obj = Ret None"
      by (simp_all add: resolve_not_link d)
    show ?thesis
      using "0.prems"(2)
      unfolding GetType.simps [of 0 st obj] GetType.simps [of 0 st' obj] d res
      by (simp add: obind_def split: if_splits)
  qed
next
  case (Suc n)
  have d: "data (heap st' obj) = data (heap st obj)"
    using ext Suc.prems(1) by (rule obj_ext_data)
  show ?case
  proof (cases "slen (data (heap st obj)) > 0 \<and> index (data (heap st obj)) 0 = Ret CHR ''@''")
    case True
    with Suc.prems(3) have k: "k \<noteq> TYPE_UNKNOWN" by simp
    from True Suc.prems(2) k obtain r where
        r: "resolveObjectLink st obj = Ret (Some r)" and g: "GetType n st r = Ret k"
      unfolding GetType.simps [of "Suc n" st obj]
      by (auto simp: obind_def tag_type_link split: outcome.splits option.splits if_splits)
    from resolve_Some_ext [OF ext Suc.prems(1) r]
    have r': "resolveObjectLink st' obj = Ret (Some r)" and "r \<in> set (objectCache st)"
      by simp_all
    with ha have "r < nxt st" by (simp add: handles_allocated_def)
    then have "GetType n st' r = Ret k" using g k by (intro Suc.IH) simp_all
    with True show ?thesis
      unfolding GetType.simps [of "Suc n" st' obj] d r'
      by (simp add: obind_def)
  next
    case False
    then have res: "resolveObjectLink st obj = Ret None" "resolveObjectLink st' obj = Ret None"
      by (simp_all add: resolve_not_link d)
    show ?thesis
      using Suc.prems(2)
      unfolding GetType.simps [of "Suc n" st obj] GetType.simps [of "Suc n" st' obj] d res
      by (simp add: obind_def split: if_splits)
  qed
qed

subsection \<open>Handles of the object table are allocated nodes\<close>

lemma kh_unchanged: "handles_allocated st \<Longrightarrow> snd (m st) = st \<Longrightarrow> keeps_handles m st"
  by (simp add: keeps_handles_def)

lemma kh_ret: "handles_allocated st \<Longrightarrow> keeps_handles (ret x) st"
  by (simp add: keeps_handles_def ret_def)

lemma kh_gets: "handles_allocated st \<Longrightarrow> keeps_handles (gets g) st"
  by (simp add: keeps_handles_def gets_def)

lemma kh_panic: "handles_allocated st \<Longrightarrow> keeps_handles panic st"
  by (simp add: keeps_handles_def panic_def)

lemma kh_exhausted: "handles_allocated st \<Longrightarrow> keeps_handles exhausted st"
  by (simp add: keeps_handles_def exhausted_def)

lemma kh_assertType: "handles_allocated st \<Longrightarrow> keeps_handles (assertType n obj t) st"
  by (simp add: assertType_def kh_gets)

lemma kh_set_size: "handles_allocated st \<Longrightarrow> keeps_handles (set_size obj v) st"
  by (simp add: keeps_handles_def set_size_def handles_allocated_def)

lemma kh_cacheSymbols: "handles_allocated st \<Longrightarrow> keeps_handles (cacheSymbols syms) st"
  by (simp add: keeps_handles_def cacheSymbols_def handles_allocated_def)

lemma kh_cacheObject:
  "handles_allocated st \<Longrightarrow> object < nxt st \<Longrightarrow> keeps_handles (cacheObject n obj object) st"
  by (auto simp: keeps_handles_def cacheObject_def handles_allocated_def Let_def
      split: outcome.split)

lemma kh_mbind:
  assumes "keeps_handles m st"
    and "\<And>x st'. handles_allocated st' \<Longrightarrow> nxt st \<le> nxt st' \<Longrightarrow> keeps_handles (f x) st'"
  shows "keeps_handles (mbind m f) st"
proof (cases "m st")
  case (Pair r st')
  with assms(1) have a: "handles_allocated st'" "nxt st \<le> nxt st'"
    by (simp_all add: keeps_handles_def)
  show ?thesis
  proof (cases r)
    case (Ret x)
    from assms(2) [OF a, of x] a(2) Pair Ret show ?thesis
      by (simp add: keeps_handles_def mbind_def)
  next
    case Panic
    with Pair a show ?thesis by (simp add: keeps_handles_def mbind_def)
  next
    case Exhausted
    with Pair a show ?thesis by (simp add: keeps_handles_def mbind_def)
  qed
qed

lemma kh_mbind_alloc:
  assumes "handles_allocated st"
    and "\<And>x st'. x < nxt st' \<Longrightarrow> handles_allocated st' \<Longrightarrow> nxt st \<le> nxt st' \<Longrightarrow>
           keeps_handles (f x) st'"
  shows "keeps_handles (mbind (alloc ob) f) st"
proof -
  let ?st' = "st\<lparr>heap := (heap st)(nxt st := ob), nxt := Suc (nxt st)\<rparr>"
  have h: "handles_allocated ?st'"
    using assms(1) by (auto simp: handles_allocated_def)
  have "keeps_handles (f (nxt st)) ?st'"
    by (rule assms(2)) (simp_all add: h)
  then show ?thesis
    by (simp add: keeps_handles_def mbind_def alloc_def)
qed

lemma kh_mbind_newWithSize:
  assumes "handles_allocated st"
    and "\<And>x st'. x < nxt st' \<Longrightarrow> handles_allocated st' \<Longrightarrow> nxt st \<le> nxt st' \<Longrightarrow>
           keeps_handles (f x) st'"
  shows "keeps_handles (mbind (newMarshalledObjectWithSize a b d sz) f) st"
  unfolding newMarshalledObjectWithSize_def using assms by (rule kh_mbind_alloc)

lemma kh_mbind_new:
  assumes "handles_allocated st"
    and "\<And>x st'. x < nxt st' \<Longrightarrow> handles_allocated st' \<Longrightarrow> nxt st \<le> nxt st' \<Longrightarrow>
           keeps_handles (f x) st'"
  shows "keeps_handles (mbind (newMarshalledObject a b d) f) st"
  unfolding newMarshalledObject_def using assms by (rule kh_mbind_newWithSize)

lemma resolve_Some_mem:
  "resolveObjectLink st obj = Ret (Some r) \<Longrightarrow> r \<in> set (objectCache st)"
  unfolding resolveObjectLink_def Let_def
  by (auto dest!: obind_Ret split: if_splits prod.splits)

lemma kh_link:
  assumes "handles_allocated st"
    and "\<And>r m. n = Suc m \<Longrightarrow> r < nxt st \<Longrightarrow> keeps_handles (rec m r) st"
    and "keeps_handles body st"
  shows "keeps_handles (mbind (gets (\<lambda>st. resolveObjectLink st obj))
                   (\<lambda>ref. case ref of
                       Some r \<Rightarrow> (case n of 0 \<Rightarrow> exhausted | Suc m \<Rightarrow> rec m r)
                     | None \<Rightarrow> body)) st"
proof (cases "resolveObjectLink st obj")
  case (Ret ref)
  show ?thesis
  proof (cases ref)
    case None
    with Ret assms(3) show ?thesis by (simp add: keeps_handles_def mbind_def gets_def)
  next
    case (Some r)
    with Ret have "r \<in> set (objectCache st)" by (simp add: resolve_Some_mem)
    with assms(1) have r: "r < nxt st" by (simp add: handles_allocated_def)
    show ?thesis
    proof (cases n)
      case 0
      with Ret Some assms(1) show ?thesis
        by (simp add: keeps_handles_def mbind_def gets_def exhausted_def)
    next
      case (Suc m)
      from assms(2) [OF Suc r] Ret Some Suc show ?thesis
        by (simp add: keeps_handles_def mbind_def gets_def)
    qed
  qed
next
  case Panic
  with assms(1) show ?thesis by (simp add: keeps_handles_def mbind_def gets_def)
next
  case Exhausted
  with assms(1) show ?thesis by (simp add: keeps_handles_def mbind_def gets_def)
qed

lemmas kh_rules = kh_ret kh_gets kh_panic kh_exhausted kh_assertType kh_set_size
  kh_cacheSymbols kh_cacheObject

lemmas kh_binds = kh_mbind_new kh_mbind_newWithSize kh_mbind

lemmas kh_splits = if_split prod.split option.split nat.split marshalledObjectType.split

lemma kh_GetAsString:
  "handles_allocated st \<Longrightarrow> obj < nxt st \<Longrightarrow> keeps_handles (GetAsString n obj) st"
proof (induction n arbitrary: obj st)
  case 0
  show ?case
    unfolding GetAsString.simps [of 0 obj]
    using 0
    by (intro kh_link)
       (assumption | rule kh_rules | rule kh_binds
        | simp only: split: kh_splits | intro allI impI conjI | linarith)+
next
  case (Suc n)
  show ?case
    unfolding GetAsString.simps [of "Suc n" obj]
    using Suc.prems
    by (intro kh_link)
       (assumption | rule kh_rules | rule kh_binds | rule Suc.IH
        | simp only: nat.inject split: kh_splits | intro allI impI conjI | linarith
        | hypsubst)+
qed

lemma kh_string_size: "handles_allocated st \<Longrightarrow> keeps_handles (string_size d) st"
  unfolding string_size_def
  by (assumption | rule kh_rules | rule kh_binds
      | simp only: split: kh_splits | intro allI impI conjI)+

lemma kh_ToString:
  "handles_allocated st \<Longrightarrow> obj < nxt st \<Longrightarrow> keeps_handles (ToString sc n obj) st"
  unfolding ToString_def
  by (assumption | rule kh_rules | rule kh_binds | rule kh_GetAsString
      | rule kh_unchanged [OF _ GetAsBool_state]
      | rule kh_unchanged [OF _ GetAsInteger_state]
      | rule kh_unchanged [OF _ GetAsFloat_state]
      | simp only: split: kh_splits | intro allI impI conjI | linarith)+

lemma kh_getSize_step:
  assumes arr: "\<And>m ob s. n = Suc m \<Longrightarrow> handles_allocated s \<Longrightarrow> ob < nxt s \<Longrightarrow>
                  keeps_handles (GetAsArray sc m ob) s"
    and mp: "\<And>m ob s. n = Suc m \<Longrightarrow> handles_allocated s \<Longrightarrow> ob < nxt s \<Longrightarrow>
                  keeps_handles (GetAsMap sc m ob) s"
  shows "handles_allocated st \<Longrightarrow> obj < nxt st \<Longrightarrow> keeps_handles (getSize sc n obj) st"
  unfolding getSize.simps [of sc n obj]
  by (assumption | rule kh_rules | rule kh_binds | rule kh_string_size
      | (rule arr, (simp; fail)) | (rule mp, (simp; fail))
      | simp only: split: kh_splits | intro allI impI conjI | linarith)+

lemma kh_GetAsArray_loop:
  assumes gs: "\<And>tmp s. handles_allocated s \<Longrightarrow> tmp < nxt s \<Longrightarrow>
                 keeps_handles (getSize sc n tmp) s"
  shows "handles_allocated st \<Longrightarrow> obj < nxt st \<Longrightarrow>
         keeps_handles (GetAsArray_loop sc n obj k offset v) st"
proof (induction k arbitrary: offset v st)
  case 0
  then show ?case by (simp add: kh_ret)
next
  case (Suc k)
  show ?case
    unfolding GetAsArray_loop.simps
    by (insert Suc.prems,
        (assumption | rule kh_rules | rule kh_binds | rule gs | rule Suc.IH | linarith)+)
qed

lemma kh_GetAsMap_loop:
  assumes gs: "\<And>tmp s. handles_allocated s \<Longrightarrow> tmp < nxt s \<Longrightarrow>
                 keeps_handles (getSize sc n tmp) s"
  shows "handles_allocated st \<Longrightarrow> obj < nxt st \<Longrightarrow>
         keeps_handles (GetAsMap_loop sc n obj k offset v) st"
proof (induction k arbitrary: offset v st)
  case 0
  then show ?case by (simp add: kh_ret)
next
  case (Suc k)
  show ?case
    unfolding GetAsMap_loop.simps
    by (insert Suc.prems,
        (assumption | rule kh_rules | rule kh_binds | rule gs | rule Suc.IH | rule kh_ToString
         | linarith)+)
qed

lemma kh_GetAsArray_step:
  assumes gs: "\<And>tmp s. handles_allocated s \<Longrightarrow> tmp < nxt s \<Longrightarrow>
                 keeps_handles (getSize sc n tmp) s"
    and arr: "\<And>m ob s. n = Suc m \<Longrightarrow> handles_allocated s \<Longrightarrow> ob < nxt s \<Longrightarrow>
                  keeps_handles (GetAsArray sc m ob) s"
  shows "handles_allocated st \<Longrightarrow> obj < nxt st \<Longrightarrow> keeps_handles (GetAsArray sc n obj) st"
  unfolding GetAsArray.simps [of sc n obj]
  by (intro kh_link)
     (assumption | rule kh_rules | rule kh_binds | rule kh_GetAsArray_loop [OF gs]
      | (rule arr, (simp; fail))
      | simp only: split: kh_splits | intro allI impI conjI | linarith)+

lemma kh_GetAsMap_step:
  assumes gs: "\<And>tmp s. handles_allocated s \<Longrightarrow> tmp < nxt s \<Longrightarrow>
                 keeps_handles (getSize sc n tmp) s"
    and mp: "\<And>m ob s. n = Suc m \<Longrightarrow> handles_allocated s \<Longrightarrow> ob < nxt s \<Longrightarrow>
                  keeps_handles (GetAsMap sc m ob) s"
  shows "handles_allocated st \<Longrightarrow> obj < nxt st \<Longrightarrow> keeps_handles (GetAsMap sc n obj) st"
  unfolding GetAsMap.simps [of sc n obj]
  by (intro kh_link)
     (assumption | rule kh_rules | rule kh_binds | rule kh_GetAsMap_loop [OF gs]
      | (rule mp, (simp; fail))
      | simp only: split: kh_splits | intro allI impI conjI | linarith)+

lemma kh_containers:
  "(\<forall>obj st. handles_allocated st \<longrightarrow> obj < nxt st \<longrightarrow> keeps_handles (getSize sc n obj) st)
   \<and> (\<forall>obj st. handles_allocated st \<longrightarrow> obj < nxt st \<longrightarrow> keeps_handles (GetAsArray sc n obj) st)
   \<and> (\<forall>obj st. handles_allocated st \<longrightarrow> obj < nxt st \<longrightarrow> keeps_handles (GetAsMap sc n obj) st)"
proof (induction n)
  case 0
  have gs: "\<And>tmp s. handles_allocated s \<Longrightarrow> tmp < nxt s \<Longrightarrow> keeps_handles (getSize sc 0 tmp) s"
    by (rule kh_getSize_step) simp_all
  show ?case
    by (intro conjI allI impI gs kh_GetAsArray_step [OF gs] kh_GetAsMap_step [OF gs]) simp_all
next
  case (Suc n)
  from Suc.IH have a: "\<And>ob s. handles_allocated s \<Longrightarrow> ob < nxt s \<Longrightarrow>
      keeps_handles (GetAsArray sc n ob) s"
    and b: "\<And>ob s. handles_allocated s \<Longrightarrow> ob < nxt s \<Longrightarrow> keeps_handles (GetAsMap sc n ob) s"
    by blast+
  have gs: "\<And>tmp s. handles_allocated s \<Longrightarrow> tmp < nxt s \<Longrightarrow>
      keeps_handles (getSize sc (Suc n) tmp) s"
    by (rule kh_getSize_step) (use a b in auto)
  show ?case
    by (intro conjI allI impI gs kh_GetAsArray_step [OF gs] kh_GetAsMap_step [OF gs])
       (use a b in auto)
qed

lemma handles_perform:
  assumes h: "handles_allocated st" and o: "operand c < nxt st"
  shows "handles_allocated (perform sc n c st) \<and> nxt st \<le> nxt (perform sc n c st)"
proof -
  note k = kh_containers [of sc n]
  show ?thesis
  proof (cases c)
    case (Op_GetType obj)
    then show ?thesis using h by (simp add: perform_def gets_def)
  next
    case (Op_GetAsBool obj)
    then show ?thesis using h by (simp add: perform_def GetAsBool_state)
  next
    case (Op_GetAsInteger obj)
    then show ?thesis using h by (simp add: perform_def GetAsInteger_state)
  next
    case (Op_GetAsFloat obj)
    then show ?thesis using h by (simp add: perform_def GetAsFloat_state)
  next
    case (Op_GetAsString obj)
    then show ?thesis
      using kh_GetAsString [OF h, of obj n] o
      by (simp add: perform_def keeps_handles_def operand_def)
  next
    case (Op_GetAsArray obj)
    then show ?thesis using k h o by (simp add: perform_def keeps_handles_def operand_def)
  next
    case (Op_GetAsMap obj)
    then show ?thesis using k h o by (simp add: perform_def keeps_handles_def operand_def)
  next
    case (Op_ToString obj)
    then show ?thesis
      using kh_ToString [OF h, of obj sc n] o
      by (simp add: perform_def keeps_handles_def operand_def)
  next
    case (Op_getSize obj)
    then show ?thesis using k h o by (simp add: perform_def keeps_handles_def operand_def)
  qed
qed

lemma handles_perform_all:
  "handles_allocated st \<Longrightarrow> on_allocated sc cs st \<Longrightarrow> handles_allocated (perform_all sc cs st)"
proof (induction cs arbitrary: st)
  case Nil
  then show ?case by simp
next
  case (Cons a cs)
  obtain n c where a: "a = (n, c)" by (cases a)
  from Cons.prems have o: "operand c < nxt st" and r: "on_allocated sc cs (perform sc n c st)"
    unfolding a by simp_all
  from handles_perform [OF Cons.prems(1) o, of sc n] have "handles_allocated (perform sc n c st)"
    by simp
  then show ?case unfolding a using r by (simp add: Cons.IH)
qed

lemma handles_root:
  "CreateMarshalledObject buf = Ret (root, st0) \<Longrightarrow> handles_allocated st0"
  using Create_tables [of buf root st0] by (simp add: handles_allocated_def)

subsection \<open>Stability of the kind\<close>

text \<open>
  C6, as the code has it. Take a state reached from a decoded root by calls on allocated
  nodes, and an allocated node \<open>obj\<close> on which \<^verbatim>\<open>GetType\<close> returns the kind \<open>k\<close>. If
  \<open>k\<close> is not Unknown, or the first byte of \<open>obj\<close> is not \<^verbatim>\<open>@\<close>, then \<^verbatim>\<open>GetType\<close>
  returns \<open>k\<close> again after any further sequence of calls. (A node that starts with
  \<^verbatim>\<open>@\<close> and whose index is not below the length of the object table has kind
  Unknown, by the guard \<^verbatim>\<open>int(idx) < len(cache)\<close> of \<^verbatim>\<open>resolveObjectLink\<close>; its kind
  is the target's once the table has grown.)
\<close>

theorem GetType_stable:
  assumes "CreateMarshalledObject buf = Ret (root, st0)"
    and "on_allocated sc cs0 st0"
    and "obj < nxt (perform_all sc cs0 st0)"
    and "GetType n (perform_all sc cs0 st0) obj = Ret k"
    and "k \<noteq> TYPE_UNKNOWN \<or>
         index (data (heap (perform_all sc cs0 st0) obj)) 0 \<noteq> Ret CHR ''@''"
  shows "GetType n (perform_all sc cs (perform_all sc cs0 st0)) obj = Ret k"
proof -
  have h: "handles_allocated (perform_all sc cs0 st0)"
    using handles_root [OF assms(1)] assms(2) by (rule handles_perform_all)
  show ?thesis
    using keeps_perform_all [OF frame_rel_obj_ext] h assms(3,4,5) by (rule GetType_obj_ext)
qed

theorem GetType_stable_witness:
  "CreateMarshalledObject (mk_slice (CHR 0x04 # CHR 0x08 # [CHR 0x5B, CHR 0x06, CHR 0x40, CHR 0x00]))
     = Ret (0, root_state [CHR 0x5B, CHR 0x06, CHR 0x40, CHR 0x00]) \<and>
   on_allocated no_floats [(0, Op_GetAsArray 0)]
     (root_state [CHR 0x5B, CHR 0x06, CHR 0x40, CHR 0x00]) \<and>
   2 < nxt (perform_all no_floats [(0, Op_GetAsArray 0)]
     (root_state [CHR 0x5B, CHR 0x06, CHR 0x40, CHR 0x00])) \<and>
   GetType (Suc 0) (perform_all no_floats [(0, Op_GetAsArray 0)]
     (root_state [CHR 0x5B, CHR 0x06, CHR 0x40, CHR 0x00])) 2 = Ret TYPE_ARRAY \<and>
   GetType (Suc 0)
     (perform_all no_floats [(Suc 0, Op_GetAsArray 0), (Suc 0, Op_ToString 2)]
       (perform_all no_floats [(0, Op_GetAsArray 0)]
         (root_state [CHR 0x5B, CHR 0x06, CHR 0x40, CHR 0x00]))) 2 = Ret TYPE_ARRAY"
proof -
  let ?r = "root_state [CHR 0x5B, CHR 0x06, CHR 0x40, CHR 0x00]"
  let ?st = "perform_all no_floats [(0, Op_GetAsArray 0)] ?r"
  have c: "CreateMarshalledObject
      (mk_slice (CHR 0x04 # CHR 0x08 # [CHR 0x5B, CHR 0x06, CHR 0x40, CHR 0x00])) = Ret (0, ?r)"
    by (rule Create_root_state)
  have a: "on_allocated no_floats [(0, Op_GetAsArray 0)] ?r"
    by (simp add: operand_def root_state_def monad_simps empty_state_def)
  have b: "2 < nxt ?st" and g: "GetType (Suc 0) ?st 2 = Ret TYPE_ARRAY"
    by (simp_all add: perform_def GetAsArray.simps getSize.simps
        GetType.simps slice_simps monad_simps parse_simps node_simps)
  have k: "TYPE_ARRAY \<noteq> TYPE_UNKNOWN \<or> index (data (heap ?st 2)) 0 \<noteq> Ret CHR ''@''"
    by simp
  from GetType_stable [OF c a b g k,
      of "[(Suc 0, Op_GetAsArray 0), (Suc 0, Op_ToString 2)]"] c a b g
  show ?thesis by blast
qed

text \<open>
  The claim C6 as stated fails on the input 04 08 5B 07 40 08 5B 00, an array of a link
  with index 3 and an empty array. After \<^verbatim>\<open>GetAsArray\<close> on the root the link is the
  node 2 and the object table has three handles, so the link has kind Unknown; a second
  \<^verbatim>\<open>GetAsArray\<close> on the root appends two more handles, and the same node has kind Array.
\<close>

theorem GetType_unstable_counterexample:
  "CreateMarshalledObject
     (mk_slice [CHR 0x04, CHR 0x08, CHR 0x5B, CHR 0x07, CHR 0x40, CHR 0x08, CHR 0x5B, CHR 0x00])
     = Ret (0, root_state [CHR 0x5B, CHR 0x07, CHR 0x40, CHR 0x08, CHR 0x5B, CHR 0x00]) \<and>
   fst (GetAsArray no_floats (Suc 0) 0
          (root_state [CHR 0x5B, CHR 0x07, CHR 0x40, CHR 0x08, CHR 0x5B, CHR 0x00]))
     = Ret (Inr [2, 4]) \<and>
   GetType (Suc 0)
     (perform no_floats (Suc 0) (Op_GetAsArray 0)
        (root_state [CHR 0x5B, CHR 0x07, CHR 0x40, CHR 0x08, CHR 0x5B, CHR 0x00])) 2
     = Ret TYPE_UNKNOWN \<and>
   GetType (Suc 0)
     (perform no_floats (Suc 0) (Op_GetAsArray 0)
        (perform no_floats (Suc 0) (Op_GetAsArray 0)
           (root_state [CHR 0x5B, CHR 0x07, CHR 0x40, CHR 0x08, CHR 0x5B, CHR 0x00]))) 2
     = Ret TYPE_ARRAY"
  by (simp add: CreateMarshalledObject_def GetAsArray_loop_numeral perform_def GetAsArray.simps
      getSize.simps GetType.simps slice_simps monad_simps parse_simps node_simps)

subsection \<open>Type mismatch\<close>

lemma GetType_link_cases:
  assumes "GetType n st obj = Ret k"
  shows "resolveObjectLink st obj = Ret None \<or>
         (\<exists>r m. resolveObjectLink st obj = Ret (Some r) \<and> n = Suc m \<and> GetType m st r = Ret k)"
proof (cases "slen (data (heap st obj)) = 0")
  case True
  then show ?thesis by (simp add: resolve_not_link)
next
  case False
  with assms show ?thesis
    unfolding GetType.simps [of n st obj]
    by (auto simp: obind_def split: outcome.splits option.splits nat.splits)
qed

lemma assertType_mismatch:
  "GetType n st obj = Ret k \<Longrightarrow> k \<noteq> t \<Longrightarrow> assertType n obj t st = (Ret (Some TypeMismatch), st)"
  by (simp add: assertType_def gets_def obind_def)

lemma GetAsBool_mismatch:
  "GetType n st obj = Ret k \<Longrightarrow> k \<noteq> TYPE_BOOL \<Longrightarrow>
   GetAsBool n obj st = (Ret (Inl TypeMismatch), st)"
  by (simp add: GetAsBool_def mbind_def assertType_mismatch ret_def)

lemma GetAsInteger_mismatch:
  "GetType n st obj = Ret k \<Longrightarrow> k \<noteq> TYPE_INTEGER \<Longrightarrow>
   GetAsInteger n obj st = (Ret (Inl TypeMismatch), st)"
  by (simp add: GetAsInteger_def mbind_def assertType_mismatch ret_def)

lemma GetAsFloat_mismatch:
  "GetType n st obj = Ret k \<Longrightarrow> k \<noteq> TYPE_FLOAT \<Longrightarrow>
   GetAsFloat sc n obj st = (Ret (fzero sc, Some TypeMismatch), st)"
  by (simp add: GetAsFloat_def mbind_def assertType_mismatch ret_def)

lemma GetAsString_mismatch:
  "GetType n st obj = Ret k \<Longrightarrow> k \<noteq> TYPE_STRING \<Longrightarrow>
   GetAsString n obj st = (Ret (Inl TypeMismatch), st)"
proof (induction n arbitrary: obj)
  case 0
  from GetType_link_cases [OF "0.prems"(1)]
  have r: "resolveObjectLink st obj = Ret None" by simp
  show ?case
    unfolding GetAsString.simps [of 0 obj]
    by (simp add: mbind_def gets_def r assertType_mismatch [OF "0.prems"] ret_def)
next
  case (Suc n)
  from GetType_link_cases [OF Suc.prems(1)]
  show ?case
  proof
    assume r: "resolveObjectLink st obj = Ret None"
    show ?thesis
      unfolding GetAsString.simps [of "Suc n" obj]
      by (simp add: mbind_def gets_def r assertType_mismatch [OF Suc.prems] ret_def)
  next
    assume "\<exists>r m. resolveObjectLink st obj = Ret (Some r) \<and> Suc n = Suc m \<and> GetType m st r = Ret k"
    then obtain r where r: "resolveObjectLink st obj = Ret (Some r)"
      and g: "GetType n st r = Ret k" by auto
    show ?thesis
      unfolding GetAsString.simps [of "Suc n" obj]
      by (simp add: mbind_def gets_def r Suc.IH [OF g Suc.prems(2)])
  qed
qed

lemma GetAsArray_mismatch:
  "GetType n st obj = Ret k \<Longrightarrow> k \<noteq> TYPE_ARRAY \<Longrightarrow>
   GetAsArray sc n obj st = (Ret (Inl TypeMismatch), st)"
proof (induction n arbitrary: obj)
  case 0
  from GetType_link_cases [OF "0.prems"(1)]
  have r: "resolveObjectLink st obj = Ret None" by simp
  show ?case
    unfolding GetAsArray.simps [of sc 0 obj]
    by (simp add: mbind_def gets_def r assertType_mismatch [OF "0.prems"] ret_def)
next
  case (Suc n)
  from GetType_link_cases [OF Suc.prems(1)]
  show ?case
  proof
    assume r: "resolveObjectLink st obj = Ret None"
    show ?thesis
      unfolding GetAsArray.simps [of sc "Suc n" obj]
      by (simp add: mbind_def gets_def r assertType_mismatch [OF Suc.prems] ret_def)
  next
    assume "\<exists>r m. resolveObjectLink st obj = Ret (Some r) \<and> Suc n = Suc m \<and> GetType m st r = Ret k"
    then obtain r where r: "resolveObjectLink st obj = Ret (Some r)"
      and g: "GetType n st r = Ret k" by auto
    show ?thesis
      unfolding GetAsArray.simps [of sc "Suc n" obj]
      by (simp add: mbind_def gets_def r Suc.IH [OF g Suc.prems(2)])
  qed
qed

lemma GetAsMap_mismatch:
  "GetType n st obj = Ret k \<Longrightarrow> k \<noteq> TYPE_MAP \<Longrightarrow>
   GetAsMap sc n obj st = (Ret (Inl TypeMismatch), st)"
proof (induction n arbitrary: obj)
  case 0
  from GetType_link_cases [OF "0.prems"(1)]
  have r: "resolveObjectLink st obj = Ret None" by simp
  show ?case
    unfolding GetAsMap.simps [of sc 0 obj]
    by (simp add: mbind_def gets_def r assertType_mismatch [OF "0.prems"] ret_def)
next
  case (Suc n)
  from GetType_link_cases [OF Suc.prems(1)]
  show ?case
  proof
    assume r: "resolveObjectLink st obj = Ret None"
    show ?thesis
      unfolding GetAsMap.simps [of sc "Suc n" obj]
      by (simp add: mbind_def gets_def r assertType_mismatch [OF Suc.prems] ret_def)
  next
    assume "\<exists>r m. resolveObjectLink st obj = Ret (Some r) \<and> Suc n = Suc m \<and> GetType m st r = Ret k"
    then obtain r where r: "resolveObjectLink st obj = Ret (Some r)"
      and g: "GetType n st r = Ret k" by auto
    show ?thesis
      unfolding GetAsMap.simps [of sc "Suc n" obj]
      by (simp add: mbind_def gets_def r Suc.IH [OF g Suc.prems(2)])
  qed
qed

text \<open>
  C5. When \<^verbatim>\<open>GetType\<close> returns a kind that is not the kind an accessor expects, the
  accessor returns the error \<open>TypeMismatch\<close> and the whole state (every node's fields, the
  symbol table and the object table) is as it was.
\<close>

theorem type_mismatch_leaves_state:
  assumes "GetType n st obj = Ret k"
  shows "(k \<noteq> TYPE_BOOL \<longrightarrow> GetAsBool n obj st = (Ret (Inl TypeMismatch), st)) \<and>
         (k \<noteq> TYPE_INTEGER \<longrightarrow> GetAsInteger n obj st = (Ret (Inl TypeMismatch), st)) \<and>
         (k \<noteq> TYPE_FLOAT \<longrightarrow> GetAsFloat sc n obj st = (Ret (fzero sc, Some TypeMismatch), st)) \<and>
         (k \<noteq> TYPE_STRING \<longrightarrow> GetAsString n obj st = (Ret (Inl TypeMismatch), st)) \<and>
         (k \<noteq> TYPE_ARRAY \<longrightarrow> GetAsArray sc n obj st = (Ret (Inl TypeMismatch), st)) \<and>
         (k \<noteq> TYPE_MAP \<longrightarrow> GetAsMap sc n obj st = (Ret (Inl TypeMismatch), st))"
  using assms
  by (simp add: GetAsBool_mismatch GetAsInteger_mismatch GetAsFloat_mismatch
      GetAsString_mismatch GetAsArray_mismatch GetAsMap_mismatch)


theorem type_mismatch_leaves_state_witness:
  "GetType 0 (root_state [CHR 0x30]) 0 = Ret TYPE_NIL \<and>
   GetAsBool 0 0 (root_state [CHR 0x30]) = (Ret (Inl TypeMismatch), root_state [CHR 0x30]) \<and>
   GetAsInteger 0 0 (root_state [CHR 0x30]) = (Ret (Inl TypeMismatch), root_state [CHR 0x30]) \<and>
   GetAsFloat no_floats 0 0 (root_state [CHR 0x30])
     = (Ret (fzero no_floats, Some TypeMismatch), root_state [CHR 0x30]) \<and>
   GetAsString 0 0 (root_state [CHR 0x30]) = (Ret (Inl TypeMismatch), root_state [CHR 0x30]) \<and>
   GetAsArray no_floats 0 0 (root_state [CHR 0x30])
     = (Ret (Inl TypeMismatch), root_state [CHR 0x30]) \<and>
   GetAsMap no_floats 0 0 (root_state [CHR 0x30])
     = (Ret (Inl TypeMismatch), root_state [CHR 0x30])"
proof -
  have g: "GetType 0 (root_state [CHR 0x30]) 0 = Ret TYPE_NIL"
    by (simp add: GetType.simps slice_simps monad_simps node_simps)
  from type_mismatch_leaves_state [OF g, of no_floats] g
  show ?thesis by simp
qed

subsection \<open>Accessors that leave the tables alone\<close>

lemma ToString_state:
  "snd (ToString sc n obj st) = st \<or> snd (ToString sc n obj st) = snd (GetAsString n obj st)"
proof (cases "GetType n st obj")
  case (Ret t)
  have b: "snd (GetAsBool n obj st) = st" by (rule GetAsBool_state)
  have i: "snd (GetAsInteger n obj st) = st" by (rule GetAsInteger_state)
  have f: "snd (GetAsFloat sc n obj st) = st" by (rule GetAsFloat_state)
  show ?thesis
    using Ret b i f
    by (cases t; cases "GetAsBool n obj st"; cases "GetAsInteger n obj st";
        cases "GetAsFloat sc n obj st"; cases "GetAsString n obj st")
       (auto simp: ToString_def mbind_def gets_def ret_def split: outcome.splits prod.splits)
next
  case Panic
  then show ?thesis by (simp add: ToString_def mbind_def gets_def)
next
  case Exhausted
  then show ?thesis by (simp add: ToString_def mbind_def gets_def)
qed

text \<open>
  C10. \<^verbatim>\<open>GetType\<close>, \<^verbatim>\<open>GetAsBool\<close>, \<^verbatim>\<open>GetAsInteger\<close> and \<^verbatim>\<open>GetAsFloat\<close> leave the
  state, and so both tables, as they found it. The remaining public method
  \<^verbatim>\<open>ToString\<close> changes the state only through the call of \<^verbatim>\<open>GetAsString\<close> it makes on
  a node of kind String.
\<close>

theorem scalar_accessors_frame:
  "perform sc n (Op_GetType obj) st = st \<and>
   perform sc n (Op_GetAsBool obj) st = st \<and>
   perform sc n (Op_GetAsInteger obj) st = st \<and>
   perform sc n (Op_GetAsFloat obj) st = st \<and>
   (perform sc n (Op_ToString obj) st = st \<or>
    perform sc n (Op_ToString obj) st = perform sc n (Op_GetAsString obj) st)"
  using ToString_state [of sc n obj st]
  by (simp add: perform_def gets_def GetAsBool_state GetAsInteger_state GetAsFloat_state)

theorem scalar_accessors_frame_witness:
  "perform no_floats 0 (Op_GetType 0) (root_state (drop 2 decorated_hi))
     = root_state (drop 2 decorated_hi) \<and>
   perform no_floats 0 (Op_GetAsBool 0) (root_state (drop 2 decorated_hi))
     = root_state (drop 2 decorated_hi) \<and>
   perform no_floats 0 (Op_GetAsInteger 0) (root_state (drop 2 decorated_hi))
     = root_state (drop 2 decorated_hi) \<and>
   perform no_floats 0 (Op_GetAsFloat 0) (root_state (drop 2 decorated_hi))
     = root_state (drop 2 decorated_hi) \<and>
   symbolCache (root_state (drop 2 decorated_hi)) = [] \<and>
   objectCache (root_state (drop 2 decorated_hi)) = [] \<and>
   symbolCache (perform no_floats 0 (Op_GetAsString 0) (root_state (drop 2 decorated_hi)))
     = [''E''] \<and>
   objectCache (perform no_floats 0 (Op_GetAsString 0) (root_state (drop 2 decorated_hi)))
     = [0]"
proof -
  have "symbolCache (root_state (drop 2 decorated_hi)) = []"
    "objectCache (root_state (drop 2 decorated_hi)) = []"
    "symbolCache (perform no_floats 0 (Op_GetAsString 0) (root_state (drop 2 decorated_hi)))
       = [''E'']"
    "objectCache (perform no_floats 0 (Op_GetAsString 0) (root_state (drop 2 decorated_hi)))
       = [0]"
    by (simp_all add: perform_def decorated_hi_def GetAsString.simps GetType.simps
        slice_simps monad_simps parse_simps node_simps)
  with scalar_accessors_frame [of no_floats 0 0 "root_state (drop 2 decorated_hi)"]
  show ?thesis by simp
qed

end
